theory Spec2Isabelle
  imports Complex_Main
begin

section \<open>Failures\<close>

text \<open>
  The program fails in three ways, each a value of \<open>error\<close>:
  \<^item> \<open>LogicError msg\<close>: \<^verbatim>\<open>LogicError(fmt, ...)\<close> of the host library, which throws
    \<^verbatim>\<open>std::logic_error\<close> with the formatted message;
  \<^item> \<open>AssertionFailure expr\<close>: an \<^verbatim>\<open>assert(expr)\<close> that is false in a build
    that compiles assertions in (\<^verbatim>\<open>NDEBUG\<close> not defined): the process aborts;
  \<^item> \<open>UndefinedBehaviour what\<close>: an access that C++ leaves undefined
    (\<^verbatim>\<open>v[i]\<close> with \<open>i \<ge> v.size()\<close>, \<^verbatim>\<open>front()\<close>, \<^verbatim>\<open>back()\<close> or
    \<^verbatim>\<open>pop_back()\<close> of an empty vector, a null \<^verbatim>\<open>shared_ptr\<close> dereferenced).
  A function with an \<^verbatim>\<open>assert\<close> takes the build flag \<open>NDEBUG\<close> as its first argument:
  with \<open>NDEBUG\<close> the assertion is compiled out and its expression is not evaluated.
\<close>

datatype error =
    LogicError string
  | AssertionFailure string
  | UndefinedBehaviour string

text \<open>
  An invocation of a sub-model, as the callers below record it: the role of the model
  called and the arguments passed, in call order.
\<close>

type_synonym 'v call = "string \<times> 'v list"

section \<open>Parameters and parameter blocks\<close>

text \<open>
  A \<^verbatim>\<open>Parameter\<close> is known to this layer by its shape, its initialiser, its device and
  its name (\<^verbatim>\<open>DataType::Float\<close> throughout). \<^verbatim>\<open>wstring\<close> names are strings.
\<close>

datatype initializer = GlorotUniformInitializer | ConstantInitializer real

datatype 'd Parameter =
  Parameter (ParameterShape: "nat list") (ParameterInit: initializer) (ParameterDevice: 'd) (Name: string)

text \<open>
  \<^verbatim>\<open>struct ParameterBlock\<close>: two \<^verbatim>\<open>std::map\<close>s keyed by name. A
  \<^verbatim>\<open>shared_ptr<ParameterBlock>\<close> is an option: \<open>None\<close> is the null pointer. Blocks are
  never written after construction, so sharing is not observable and a block is a value.
\<close>

datatype 'd ParameterBlock =
  ParameterBlock (m_parameters: "string \<rightharpoonup> 'd Parameter")
                 (m_parentParameters: "string \<rightharpoonup> 'd ParameterBlock option")

text \<open>
  The constructor's loop: an unnamed parameter is a \<^verbatim>\<open>LogicError\<close>; otherwise
  \<^verbatim>\<open>m_parameters.insert(make_pair(p.Name(), p))\<close>, which keeps an entry already there.
\<close>

fun ParameterBlock_insert ::
  "'d Parameter list \<Rightarrow> (string \<rightharpoonup> 'd Parameter) \<Rightarrow> error + (string \<rightharpoonup> 'd Parameter)" where
  "ParameterBlock_insert [] m = Inr m"
| "ParameterBlock_insert (p # parameters) m =
     (if Name p = [] then Inl (LogicError ''parameters must be named'')
      else ParameterBlock_insert parameters
             (case m (Name p) of None \<Rightarrow> m(Name p \<mapsto> p) | Some _ \<Rightarrow> m))"

definition ParameterBlock_new ::
  "'d Parameter list \<Rightarrow> (string \<rightharpoonup> 'd ParameterBlock option) \<Rightarrow> error + 'd ParameterBlock" where
  "ParameterBlock_new parameters parentParameters =
     (case ParameterBlock_insert parameters Map.empty of
        Inl e \<Rightarrow> Inl e
      | Inr m \<Rightarrow> Inr (ParameterBlock m parentParameters))"

text \<open>\<^verbatim>\<open>ParameterBlock::operator[]\<close>.\<close>

definition ParameterBlock_index :: "'d ParameterBlock \<Rightarrow> string \<Rightarrow> error + 'd Parameter" where
  "ParameterBlock_index pb name =
     (case m_parameters pb name of
        None \<Rightarrow> Inl (LogicError (''no such parameter: '' @ name))
      | Some p \<Rightarrow> Inr p)"

text \<open>\<^verbatim>\<open>ParameterBlock::Nested\<close>: the stored pointer is dereferenced.\<close>

definition ParameterBlock_Nested :: "'d ParameterBlock \<Rightarrow> string \<Rightarrow> error + 'd ParameterBlock" where
  "ParameterBlock_Nested pb name =
     (case m_parentParameters pb name of
        None \<Rightarrow> Inl (LogicError (''no such captured model: '' @ name))
      | Some None \<Rightarrow> Inl (UndefinedBehaviour ''null ParameterBlock dereferenced'')
      | Some (Some nested) \<Rightarrow> Inr nested)"

section \<open>Models\<close>

text \<open>
  \<^verbatim>\<open>ModelT<Base>\<close>: the wrapped function \<open>Base\<close> and a shared pointer to the model's
  parameter block. \<open>ModelT1\<close>, \<open>ModelT2\<close>, \<open>ModelT3\<close> are the three constructors, in the
  order of the source; the first leaves the pointer null.
\<close>

record ('f, 'd) ModelT =
  Base :: 'f
  ModelT_m_parameters :: "'d ParameterBlock option"

definition ModelT1 :: "'f \<Rightarrow> ('f, 'd) ModelT" where
  "ModelT1 f = \<lparr>Base = f, ModelT_m_parameters = None\<rparr>"

definition ModelT2 :: "'d Parameter list \<Rightarrow> 'f \<Rightarrow> error + ('f, 'd) ModelT" where
  "ModelT2 parameters f =
     (case ParameterBlock_new parameters Map.empty of
        Inl e \<Rightarrow> Inl e
      | Inr pb \<Rightarrow> Inr \<lparr>Base = f, ModelT_m_parameters = Some pb\<rparr>)"

definition ModelT3 ::
  "'d Parameter list \<Rightarrow> (string \<rightharpoonup> 'd ParameterBlock option) \<Rightarrow> 'f \<Rightarrow> error + ('f, 'd) ModelT" where
  "ModelT3 parameters nested f =
     (case ParameterBlock_new parameters nested of
        Inl e \<Rightarrow> Inl e
      | Inr pb \<Rightarrow> Inr \<lparr>Base = f, ModelT_m_parameters = Some pb\<rparr>)"

definition GetParameterBlock :: "('f, 'd) ModelT \<Rightarrow> 'd ParameterBlock option" where
  "GetParameterBlock m = ModelT_m_parameters m"

definition ModelT_Nested :: "('f, 'd) ModelT \<Rightarrow> string \<Rightarrow> error + 'd ParameterBlock" where
  "ModelT_Nested m name =
     (case ModelT_m_parameters m of
        None \<Rightarrow> Inl (UndefinedBehaviour ''null ParameterBlock dereferenced'')
      | Some pb \<Rightarrow> ParameterBlock_Nested pb name)"

section \<open>Batch\<close>

text \<open>
  \<^verbatim>\<open>Batch::map\<close>: a range-for that appends \<open>f(x)\<close> to \<open>res\<close>.
\<close>

fun map_loop :: "('a \<Rightarrow> 'b) \<Rightarrow> 'a list \<Rightarrow> 'b list \<Rightarrow> 'b list" where
  "map_loop f [] res = res"
| "map_loop f (x # batch) res = map_loop f batch (res @ [f x])"

definition Batch_map :: "('v \<Rightarrow> 'v, 'd) ModelT \<Rightarrow> 'v list \<Rightarrow> 'v list" where
  "Batch_map f batch = map_loop (Base f) batch []"

text \<open>
  The loop of the two pairing overloads of \<^verbatim>\<open>Batch::Map\<close>:
  \<^verbatim>\<open>for (size_t i = 0; i < xBatch.size(); i++) res.emplace_back(f(xBatch[i], yBatch[i]));\<close>
  Reading \<open>yBatch[i]\<close> beyond its size is undefined.
\<close>

function Map_loop ::
  "('a \<Rightarrow> 'b \<Rightarrow> 'c) \<Rightarrow> 'a list \<Rightarrow> 'b list \<Rightarrow> nat \<Rightarrow> 'c list \<Rightarrow> error + 'c list" where
  "Map_loop f xBatch yBatch i res =
     (if i < length xBatch then
        (if i < length yBatch
         then Map_loop f xBatch yBatch (i + 1) (res @ [f (xBatch ! i) (yBatch ! i)])
         else Inl (UndefinedBehaviour ''yBatch[i] out of range''))
      else Inr res)"
  by pat_completeness auto
termination
  by (relation "measure (\<lambda>(f, xBatch, yBatch, i, res). length xBatch - i)") auto

declare Map_loop.simps [simp del]

text \<open>\<^verbatim>\<open>Batch::Map(BinaryModel f)\<close>, applied to the two batches.\<close>

definition Batch_Map_Binary ::
  "bool \<Rightarrow> ('v \<Rightarrow> 'v \<Rightarrow> 'v, 'd) ModelT \<Rightarrow> 'v list \<Rightarrow> 'v list \<Rightarrow> error + 'v list" where
  "Batch_Map_Binary NDEBUG f xBatch yBatch =
     (if \<not> NDEBUG \<and> length yBatch \<noteq> length xBatch
      then Inl (AssertionFailure ''yBatch.size() == xBatch.size()'')
      else Map_loop (Base f) xBatch yBatch 0 [])"

text \<open>\<^verbatim>\<open>Batch::Map(BinarySequenceModel f)\<close>, applied to the two batches of sequences.\<close>

definition Batch_Map_BinarySequence ::
  "bool \<Rightarrow> ('v list \<Rightarrow> 'v list \<Rightarrow> 'v list, 'd) ModelT \<Rightarrow> 'v list list \<Rightarrow> 'v list list
     \<Rightarrow> error + 'v list list" where
  "Batch_Map_BinarySequence NDEBUG f xBatch yBatch =
     (if \<not> NDEBUG \<and> length yBatch \<noteq> length xBatch
      then Inl (AssertionFailure ''yBatch.size() == xBatch.size()'')
      else Map_loop (Base f) xBatch yBatch 0 [])"

section \<open>Recurrence over a vector of variables\<close>

text \<open>
  \<^verbatim>\<open>Recurrence(step, initialState, goBackwards)\<close>, applied to \<open>seq\<close>. \<open>res\<close> starts as
  \<open>len\<close> default-constructed variables (\<open>Variable0\<close>) and is written by index. The loop
  also records each call of \<open>step\<close>. With \<open>t < len\<close> every index read or written is
  below \<open>len\<close>, and \<open>t - 1\<close> is only evaluated for \<open>t \<noteq> 0\<close>, so no \<^verbatim>\<open>size_t\<close>
  wraps.
\<close>

function Recurrence_loop ::
  "('v \<Rightarrow> 'v \<Rightarrow> 'v, 'd) ModelT \<Rightarrow> 'v \<Rightarrow> bool \<Rightarrow> 'v list \<Rightarrow> nat \<Rightarrow> 'v list \<Rightarrow> 'v call list
     \<Rightarrow> 'v list \<times> 'v call list" where
  "Recurrence_loop step initialState goBackwards seq t res calls =
     (let len = length seq in
      if t < len then
        (if \<not> goBackwards then
           (let prev = (if t = 0 then initialState else res ! (t - 1)) in
            Recurrence_loop step initialState goBackwards seq (t + 1)
              (res[t := Base step prev (seq ! t)])
              (calls @ [(''step'', [prev, seq ! t])]))
         else
           (let prev = (if t = 0 then initialState else res ! (len - 1 - (t - 1))) in
            Recurrence_loop step initialState goBackwards seq (t + 1)
              (res[len - 1 - t := Base step prev (seq ! (len - 1 - t))])
              (calls @ [(''step'', [prev, seq ! (len - 1 - t)])])))
      else (res, calls))"
  by pat_completeness auto
termination
  by (relation "measure (\<lambda>(step, initialState, goBackwards, seq, t, res, calls). length seq - t)")
     auto

declare Recurrence_loop.simps [simp del]

definition Recurrence_run ::
  "'v \<Rightarrow> ('v \<Rightarrow> 'v \<Rightarrow> 'v, 'd) ModelT \<Rightarrow> 'v \<Rightarrow> bool \<Rightarrow> 'v list \<Rightarrow> 'v list \<times> 'v call list" where
  "Recurrence_run Variable0 step initialState goBackwards seq =
     Recurrence_loop step initialState goBackwards seq 0 (replicate (length seq) Variable0) []"

text \<open>The model \<^verbatim>\<open>Recurrence\<close> returns (built from a bare closure: no parameter block).\<close>

definition Recurrence ::
  "'v \<Rightarrow> ('v \<Rightarrow> 'v \<Rightarrow> 'v, 'd) ModelT \<Rightarrow> 'v \<Rightarrow> bool \<Rightarrow> ('v list \<Rightarrow> 'v list, 'd) ModelT" where
  "Recurrence Variable0 step initialState goBackwards =
     ModelT1 (\<lambda>seq. fst (Recurrence_run Variable0 step initialState goBackwards seq))"

section \<open>The tensor-graph engine\<close>

text \<open>
  The operations of the host library on \<^verbatim>\<open>Variable\<close> are not part of this layer: they
  are the fields of a record, and every function below takes the record as its first
  argument. \<open>'v\<close> is \<^verbatim>\<open>Variable\<close>, \<open>'d\<close> is \<^verbatim>\<open>DeviceDescriptor\<close>. An
  \<^verbatim>\<open>Axis(k)\<close> is the integer \<open>k\<close>.
  \<open>ParameterVariable\<close> is the implicit conversion of a \<^verbatim>\<open>Parameter\<close> to a
  \<^verbatim>\<open>Variable\<close>; \<open>Constant\<close> is \<^verbatim>\<open>Constant(shape, value, device)\<close>;
  \<open>Times_op\<close> and \<open>Plus_op\<close> are \<^verbatim>\<open>Times\<close> and \<^verbatim>\<open>operator+\<close>;
  \<open>Sequence_Last\<close> is \<^verbatim>\<open>CNTK::Sequence::Last\<close>.
\<close>

record ('v, 'd) engine =
  InferredDimension :: nat
  ParameterVariable :: "'d Parameter \<Rightarrow> 'v"
  Constant :: "nat list \<Rightarrow> real \<Rightarrow> 'd \<Rightarrow> 'v"
  Shape :: "'v \<Rightarrow> nat list"
  Times_op :: "'v \<Rightarrow> 'v \<Rightarrow> 'v"
  Plus_op :: "'v \<Rightarrow> 'v \<Rightarrow> 'v"
  ReLU :: "'v \<Rightarrow> 'v"
  Slice :: "'v \<Rightarrow> int list \<Rightarrow> int list \<Rightarrow> int list \<Rightarrow> 'v"
  Reshape :: "'v \<Rightarrow> nat list \<Rightarrow> 'v"
  Splice :: "'v list \<Rightarrow> int \<Rightarrow> 'v"
  ReduceSum :: "'v \<Rightarrow> int \<Rightarrow> 'v"
  PlaceholderVariable :: 'v
  PastValue :: "'v \<Rightarrow> 'v"
  ReplacePlaceholders :: "'v \<Rightarrow> ('v \<times> 'v) list \<Rightarrow> 'v"
  Sequence_Last :: "'v \<Rightarrow> 'v"

text \<open>
  The cast \<^verbatim>\<open>(int)n\<close> of a \<^verbatim>\<open>size_t\<close>: \<^verbatim>\<open>int\<close> has 32 bits, and a value from
  \<open>2^31\<close> on wraps to a negative one.
\<close>

definition int_of_size_t :: "nat \<Rightarrow> int" where
  "int_of_size_t n = (int n + 2 ^ 31) mod 2 ^ 32 - 2 ^ 31"

section \<open>Batch sums\<close>

text \<open>
  \<^verbatim>\<open>Batch::sum(const vector<Variable>&)\<close> reads \<^verbatim>\<open>batch.front()\<close> first, which is
  undefined on an empty vector.
\<close>

definition Batch_sum :: "('v, 'd) engine \<Rightarrow> 'v list \<Rightarrow> error + 'v" where
  "Batch_sum eng batch =
     (case batch of
        [] \<Rightarrow> Inl (UndefinedBehaviour ''front() of an empty vector'')
      | front # _ \<Rightarrow>
          (let shape = Shape eng front;
               axis = int_of_size_t (length shape)
           in Inr (Reshape eng (ReduceSum eng (Splice eng batch axis) axis) shape)))"

text \<open>
  \<^verbatim>\<open>Batch::sum(const vector<vector<Variable>>&)\<close>: two nested range-fors push every
  item of every sequence on \<open>allSummands\<close>, which is then summed.
\<close>

fun sum_seqItems :: "'v list \<Rightarrow> 'v list \<Rightarrow> 'v list" where
  "sum_seqItems [] allSummands = allSummands"
| "sum_seqItems (seqItem # batchItem) allSummands =
     sum_seqItems batchItem (allSummands @ [seqItem])"

fun sum_batchItems :: "'v list list \<Rightarrow> 'v list \<Rightarrow> 'v list" where
  "sum_batchItems [] allSummands = allSummands"
| "sum_batchItems (batchItem # batch) allSummands =
     sum_batchItems batch (sum_seqItems batchItem allSummands)"

definition Batch_sum_nested :: "('v, 'd) engine \<Rightarrow> 'v list list \<Rightarrow> error + 'v" where
  "Batch_sum_nested eng batch = Batch_sum eng (sum_batchItems batch [])"

section \<open>Layers\<close>

text \<open>
  \<^verbatim>\<open>Embedding\<close>, \<^verbatim>\<open>RNNStep\<close>, \<^verbatim>\<open>Linear\<close>. A \<^verbatim>\<open>UnaryBroadcastingModel\<close> called
  on one \<^verbatim>\<open>Variable\<close> is its base model.
\<close>

definition Embedding :: "('v, 'd) engine \<Rightarrow> nat \<Rightarrow> 'd \<Rightarrow> error + ('v \<Rightarrow> 'v, 'd) ModelT" where
  "Embedding eng embeddingDim device =
     (let E = Parameter [embeddingDim, InferredDimension eng] GlorotUniformInitializer device ''E''
      in ModelT2 [E] (\<lambda>x. Times_op eng (ParameterVariable eng E) x))"

definition RNNStep :: "('v, 'd) engine \<Rightarrow> nat \<Rightarrow> 'd \<Rightarrow> error + ('v \<Rightarrow> 'v \<Rightarrow> 'v, 'd) ModelT" where
  "RNNStep eng outputDim device =
     (let W = Parameter [outputDim, InferredDimension eng] GlorotUniformInitializer device ''W'';
          R = Parameter [outputDim, outputDim] GlorotUniformInitializer device ''R'';
          b = Parameter [outputDim] (ConstantInitializer 0) device ''b''
      in ModelT2 [W, R, b] (\<lambda>prevOutput input.
           ReLU eng
             (Plus_op eng
                (Plus_op eng (Times_op eng (ParameterVariable eng W) input)
                             (Times_op eng (ParameterVariable eng R) prevOutput))
                (ParameterVariable eng b))))"

definition Linear :: "('v, 'd) engine \<Rightarrow> nat \<Rightarrow> 'd \<Rightarrow> error + ('v \<Rightarrow> 'v, 'd) ModelT" where
  "Linear eng outputDim device =
     (let W = Parameter [outputDim, InferredDimension eng] GlorotUniformInitializer device ''W'';
          b = Parameter [outputDim] (ConstantInitializer 0) device ''b''
      in ModelT2 [W, b] (\<lambda>x.
           Plus_op eng (Times_op eng (ParameterVariable eng W) x) (ParameterVariable eng b)))"

section \<open>Sequence combinators on the static graph\<close>

text \<open>
  \<^verbatim>\<open>Sequence::Recurrence\<close>: the step function is applied to the past value of a
  placeholder, which is then replaced by the result. \<^verbatim>\<open>ReplacePlaceholders\<close> updates
  the graph of \<open>rec\<close> in place; here it returns the updated variable.
\<close>

definition Sequence_Recurrence ::
  "('v, 'd) engine \<Rightarrow> ('v \<Rightarrow> 'v \<Rightarrow> 'v, 'd) ModelT \<Rightarrow> ('v \<Rightarrow> 'v, 'd) ModelT" where
  "Sequence_Recurrence eng stepFunction =
     ModelT1 (\<lambda>x.
       (let dh = PlaceholderVariable eng;
            rec = Base stepFunction (PastValue eng dh) x
        in ReplacePlaceholders eng rec [(dh, rec)]))"

text \<open>\<^verbatim>\<open>Sequence::Fold\<close>.\<close>

definition Sequence_Fold ::
  "('v, 'd) engine \<Rightarrow> ('v \<Rightarrow> 'v \<Rightarrow> 'v, 'd) ModelT \<Rightarrow> error + ('v \<Rightarrow> 'v, 'd) ModelT" where
  "Sequence_Fold eng stepFunction =
     (let captured = Map.empty(''step'' \<mapsto> GetParameterBlock stepFunction);
          recurrence = Sequence_Recurrence eng stepFunction
      in ModelT3 [] captured (\<lambda>x. Sequence_Last eng (Base recurrence x)))"

section \<open>The unrolled sequence classifier\<close>

text \<open>
  \<^verbatim>\<open>Index(Variable x, size_t i)\<close>: slice the last axis at \<open>i\<close>, then drop that axis.
  The axis is \<^verbatim>\<open>(int)x.Shape().Rank() - 1\<close> and the bounds are \<^verbatim>\<open>(int)i\<close> and
  \<^verbatim>\<open>(int)i + 1\<close>, in 32-bit \<^verbatim>\<open>int\<close>: the casts wrap, and the subtraction or the
  addition overflowing is undefined. \<^verbatim>\<open>dims.pop_back()\<close> is undefined when the slice
  has rank 0.
\<close>

definition Index :: "('v, 'd) engine \<Rightarrow> 'v \<Rightarrow> nat \<Rightarrow> error + 'v" where
  "Index eng x i =
     (let rank = int_of_size_t (length (Shape eng x));
          beginIndex = int_of_size_t i
      in if rank = - (2 ^ 31) \<or> beginIndex = 2 ^ 31 - 1
         then Inl (UndefinedBehaviour ''signed integer overflow'')
         else
           (let x1 = Slice eng x [rank - 1] [beginIndex] [beginIndex + 1];
                dims = Shape eng x1
            in if dims = [] then Inl (UndefinedBehaviour ''pop_back() of an empty vector'')
               else Inr (Reshape eng x1 (butlast dims))))"

text \<open>
  The loop of the closure of \<^verbatim>\<open>CreateModelFunctionUnrolled\<close>; \<open>calls\<close> records the
  sub-models invoked. The captured models \<^verbatim>\<open>embed\<close> and \<^verbatim>\<open>linear\<close> are written
  \<open>embed'\<close> and \<open>linear'\<close>.
\<close>

function CreateModelFunctionUnrolled_loop ::
  "('v, 'd) engine \<Rightarrow> ('v \<Rightarrow> 'v, 'd) ModelT \<Rightarrow> ('v \<Rightarrow> 'v \<Rightarrow> 'v, 'd) ModelT \<Rightarrow> 'v \<Rightarrow> nat \<Rightarrow> nat
     \<Rightarrow> 'v \<Rightarrow> 'v call list \<Rightarrow> error + 'v \<times> 'v call list" where
  "CreateModelFunctionUnrolled_loop eng embed' step x len t state calls =
     (if t < len then
        (case Index eng x t of
           Inl e \<Rightarrow> Inl e
         | Inr xt0 \<Rightarrow>
             (let xt = Base embed' xt0;
                  state' = Base step state xt
              in CreateModelFunctionUnrolled_loop eng embed' step x len (t + 1) state'
                   (calls @ [(''embed'', [xt0]), (''step'', [state, xt])])))
      else Inr (state, calls))"
  by pat_completeness auto
termination
  by (relation "measure (\<lambda>(eng, embed', step, x, len, t, state, calls). len - t)") auto

declare CreateModelFunctionUnrolled_loop.simps [simp del]

text \<open>
  The closure itself: \<open>len\<close> is the last dimension of \<open>x\<close> (\<^verbatim>\<open>back()\<close> of an empty
  vector is undefined), the state starts at \<open>zero\<close>, and \<open>linear\<close> is applied to the
  last state.
\<close>

definition CreateModelFunctionUnrolled_closure ::
  "('v, 'd) engine \<Rightarrow> ('v \<Rightarrow> 'v, 'd) ModelT \<Rightarrow> ('v \<Rightarrow> 'v \<Rightarrow> 'v, 'd) ModelT \<Rightarrow> ('v \<Rightarrow> 'v, 'd) ModelT
     \<Rightarrow> 'v \<Rightarrow> 'v \<Rightarrow> error + 'v \<times> 'v call list" where
  "CreateModelFunctionUnrolled_closure eng embed' step linear' zero x =
     (case Shape eng x of
        [] \<Rightarrow> Inl (UndefinedBehaviour ''back() of an empty vector'')
      | d # ds \<Rightarrow>
          (let len = last (d # ds) in
           case CreateModelFunctionUnrolled_loop eng embed' step x len 0 zero [] of
             Inl e \<Rightarrow> Inl e
           | Inr (state, calls) \<Rightarrow> Inr (Base linear' state, calls @ [(''linear'', [state])])))"

definition CreateModelFunctionUnrolled ::
  "('v, 'd) engine \<Rightarrow> nat \<Rightarrow> nat \<Rightarrow> nat \<Rightarrow> 'd
     \<Rightarrow> error + ('v \<Rightarrow> error + 'v \<times> 'v call list, 'd) ModelT" where
  "CreateModelFunctionUnrolled eng numOutputClasses embeddingDim hiddenDim device =
     (case Embedding eng embeddingDim device of
        Inl e \<Rightarrow> Inl e
      | Inr embed' \<Rightarrow>
     (case RNNStep eng hiddenDim device of
        Inl e \<Rightarrow> Inl e
      | Inr step \<Rightarrow>
     (case Linear eng numOutputClasses device of
        Inl e \<Rightarrow> Inl e
      | Inr linear' \<Rightarrow>
          (let zero = Constant eng [hiddenDim] 0 device
           in ModelT3 []
                (Map.empty(''embed'' \<mapsto> GetParameterBlock embed',
                           ''step'' \<mapsto> GetParameterBlock step,
                           ''linear'' \<mapsto> GetParameterBlock linear'))
                (CreateModelFunctionUnrolled_closure eng embed' step linear' zero)))))"

section \<open>Minibatch adaptation\<close>

text \<open>
  The host operations \<^verbatim>\<open>FromCNTKMB\<close> uses, again as a record: \<open>'val\<close> is
  \<^verbatim>\<open>Value\<close>, \<open>'n\<close> is \<^verbatim>\<open>NDArrayView\<close>. \<open>DynamicAxes_size\<close> is
  \<^verbatim>\<open>variable.DynamicAxes().size()\<close>, \<open>View_Dimensions\<close> is
  \<^verbatim>\<open>data->Shape().Dimensions()\<close>, \<open>Constant_view\<close> is \<^verbatim>\<open>Constant(data)\<close>, and
  \<open>Variable_default\<close> is a default-constructed \<^verbatim>\<open>Variable\<close>.
\<close>

record ('val, 'n, 'v, 'd) minibatch_engine =
  UnpackVariableValue :: "'val \<Rightarrow> 'v \<Rightarrow> 'd \<Rightarrow> 'n list"
  DynamicAxes_size :: "'v \<Rightarrow> nat"
  View_Dimensions :: "'n \<Rightarrow> nat list"
  SliceView :: "'n \<Rightarrow> nat list \<Rightarrow> nat list \<Rightarrow> bool \<Rightarrow> 'n"
  AsShape :: "'n \<Rightarrow> nat list \<Rightarrow> 'n"
  Constant_view :: "'n \<Rightarrow> 'v"
  Variable_default :: 'v

text \<open>
  \<^verbatim>\<open>Index(NDArrayViewPtr data, size_t i)\<close>. \<^verbatim>\<open>startOffset.back()\<close> and
  \<^verbatim>\<open>dims.end() - 1\<close> are undefined on an empty vector.
\<close>

definition Index_view :: "('val, 'n, 'v, 'd) minibatch_engine \<Rightarrow> 'n \<Rightarrow> nat \<Rightarrow> error + 'n" where
  "Index_view eng data i =
     (let dims = View_Dimensions eng data;
          startOffset = replicate (length dims) (0::nat);
          extent = dims
      in if startOffset = [] then Inl (UndefinedBehaviour ''back() of an empty vector'')
         else
           (let data1 =
                  (if last startOffset \<noteq> i \<or> last extent \<noteq> 1
                   then SliceView eng data (startOffset[length startOffset - 1 := i])
                          (extent[length extent - 1 := 1]) True
                   else data);
                dims1 =
                  (if last startOffset \<noteq> i \<or> last extent \<noteq> 1
                   then View_Dimensions eng data1
                   else dims)
            in if dims1 = [] then Inl (UndefinedBehaviour ''end() - 1 of an empty vector'')
               else Inr (AsShape eng data1 (butlast dims1))))"

text \<open>
  The inner loop of \<^verbatim>\<open>FromCNTKMB\<close>, over the sequences of one stream. The
  \<^verbatim>\<open>assert\<close> evaluates \<^verbatim>\<open>Dimensions().back()\<close> only when assertions are compiled in.
\<close>

function FromCNTKMB_sequences ::
  "('val, 'n, 'v, 'd) minibatch_engine \<Rightarrow> bool \<Rightarrow> 'n list \<Rightarrow> bool \<Rightarrow> nat \<Rightarrow> nat \<Rightarrow> 'v list
     \<Rightarrow> error + 'v list" where
  "FromCNTKMB_sequences eng NDEBUG sequences hasAxis numSeq s arg =
     (if s < numSeq then
        (if \<not> s < length sequences then Inl (UndefinedBehaviour ''sequences[s] out of range'')
         else
           (let data = sequences ! s in
            if \<not> hasAxis then
              (if \<not> NDEBUG \<and> View_Dimensions eng data = []
               then Inl (UndefinedBehaviour ''back() of an empty vector'')
               else if \<not> NDEBUG \<and> last (View_Dimensions eng data) \<noteq> 1
               then Inl (AssertionFailure ''data->Shape().Dimensions().back() == 1'')
               else
                 (case Index_view eng data 0 of
                    Inl e \<Rightarrow> Inl e
                  | Inr data1 \<Rightarrow>
                      FromCNTKMB_sequences eng NDEBUG sequences hasAxis numSeq (s + 1)
                        (arg[s := Constant_view eng data1])))
            else
              FromCNTKMB_sequences eng NDEBUG sequences hasAxis numSeq (s + 1)
                (arg[s := Constant_view eng data])))
      else Inr arg)"
  by pat_completeness auto
termination
  by (relation "measure (\<lambda>(eng, NDEBUG, sequences, hasAxis, numSeq, s, arg). numSeq - s)") auto

declare FromCNTKMB_sequences.simps [simp del]

text \<open>
  The outer loop, over the streams. \<open>numSeq\<close> starts at 0; a stream that finds it 0
  sets it to its own number of sequences, and a stream that finds it non-zero must have
  \<open>numSeq\<close> sequences (\<open>FromCNTKMB_numSeq\<close> is that \<^verbatim>\<open>if\<close>/\<^verbatim>\<open>else if\<close>).
  \<^verbatim>\<open>arg.resize(numSeq)\<close> on the empty \<open>res[i]\<close> gives \<open>numSeq\<close> default variables.
\<close>

definition FromCNTKMB_numSeq :: "nat \<Rightarrow> 'n list \<Rightarrow> error + nat" where
  "FromCNTKMB_numSeq numSeq sequences =
     (if numSeq = 0 then Inr (length sequences)
      else if numSeq \<noteq> length sequences then Inl (LogicError ''inconsistent MB size'')
      else Inr numSeq)"

function FromCNTKMB_streams ::
  "('val, 'n, 'v, 'd) minibatch_engine \<Rightarrow> bool \<Rightarrow> 'val list \<Rightarrow> 'v list \<Rightarrow> 'd \<Rightarrow> nat \<Rightarrow> nat
     \<Rightarrow> 'v list list \<Rightarrow> error + 'v list list" where
  "FromCNTKMB_streams eng NDEBUG inputs variables device i numSeq res =
     (if i < length inputs then
        (if \<not> i < length variables then Inl (UndefinedBehaviour ''variables[i] out of range'')
         else
           (let input = inputs ! i;
                variable = variables ! i;
                sequences = UnpackVariableValue eng input variable device
            in case FromCNTKMB_numSeq numSeq sequences of
                 Inl e \<Rightarrow> Inl e
               | Inr numSeq' \<Rightarrow>
                   (let hasAxis = (DynamicAxes_size eng variable > 1)
                    in case FromCNTKMB_sequences eng NDEBUG sequences hasAxis numSeq' 0
                              (replicate numSeq' (Variable_default eng)) of
                         Inl e \<Rightarrow> Inl e
                       | Inr arg \<Rightarrow>
                           FromCNTKMB_streams eng NDEBUG inputs variables device (i + 1) numSeq'
                             (res[i := arg]))))
      else Inr res)"
  by pat_completeness auto
termination
  by (relation "measure (\<lambda>(eng, NDEBUG, inputs, variables, device, i, numSeq, res).
        length inputs - i)") auto

declare FromCNTKMB_streams.simps [simp del]

definition FromCNTKMB ::
  "('val, 'n, 'v, 'd) minibatch_engine \<Rightarrow> bool \<Rightarrow> 'val list \<Rightarrow> 'v list \<Rightarrow> 'd
     \<Rightarrow> error + 'v list list" where
  "FromCNTKMB eng NDEBUG inputs variables device =
     (let numArgs = length inputs
      in FromCNTKMB_streams eng NDEBUG inputs variables device 0 0 (replicate numArgs []))"

section \<open>A symbolic engine\<close>

text \<open>
  One instance of the two records, on which the definitions can be evaluated: a variable
  is the graph node that built it, with the operation's name, its integer attributes, its
  argument nodes and a shape. An array view is a node as well, and a \<^verbatim>\<open>Value\<close> is the
  list of the views it unpacks to. An input variable carries one attribute for each of its
  dynamic axes.
\<close>

datatype node =
  Node (node_op: string) (node_attrs: "int list") (node_args: "node list") (node_shape: "nat list")

definition symbolic_engine :: "(node, unit) engine" where
  "symbolic_engine =
     \<lparr>InferredDimension = 2 ^ 64 - 1,
      ParameterVariable = (\<lambda>p. Node (''Parameter '' @ Name p) [] [] (ParameterShape p)),
      Constant = (\<lambda>shape value device. Node ''Constant'' [] [] shape),
      Shape = node_shape,
      Times_op = (\<lambda>a b. Node ''Times'' [] [a, b] (butlast (node_shape a))),
      Plus_op = (\<lambda>a b. Node ''Plus'' [] [a, b] (node_shape a)),
      ReLU = (\<lambda>a. Node ''ReLU'' [] [a] (node_shape a)),
      Slice = (\<lambda>x axis beginIndex endIndex.
                 Node ''Slice'' (axis @ beginIndex @ endIndex) [x]
                   (if node_shape x = [] then []
                    else butlast (node_shape x) @ [nat (hd endIndex - hd beginIndex)])),
      Reshape = (\<lambda>x shape. Node ''Reshape'' [] [x] shape),
      Splice = (\<lambda>xs axis. Node ''Splice'' [axis] xs
                  (case xs of [] \<Rightarrow> [] | x # _ \<Rightarrow> node_shape x @ [length xs])),
      ReduceSum = (\<lambda>x axis. Node ''ReduceSum'' [axis] [x] (butlast (node_shape x) @ [1])),
      PlaceholderVariable = Node ''Placeholder'' [] [] [],
      PastValue = (\<lambda>x. Node ''PastValue'' [] [x] (node_shape x)),
      ReplacePlaceholders = (\<lambda>x replacements.
                 Node ''ReplacePlaceholders'' [] (x # map fst replacements) (node_shape x)),
      Sequence_Last = (\<lambda>x. Node ''Sequence::Last'' [] [x] (node_shape x))\<rparr>"

definition symbolic_minibatch :: "(node list, node, node, unit) minibatch_engine" where
  "symbolic_minibatch =
     \<lparr>UnpackVariableValue = (\<lambda>input variable device. input),
      DynamicAxes_size = (\<lambda>variable. length (node_attrs variable)),
      View_Dimensions = node_shape,
      SliceView = (\<lambda>data startOffset extent readOnly.
                     Node ''SliceView'' (map int startOffset) [data] extent),
      AsShape = (\<lambda>data shape. Node ''AsShape'' [] [data] shape),
      Constant_view = (\<lambda>data. Node ''Constant'' [] [data] (node_shape data)),
      Variable_default = Node ''Variable'' [] [] []\<rparr>"

section \<open>The static graph over time\<close>

text \<open>
  Modelled from the spec: the host engine's placeholder mechanism, which is not among
  the sources (\<^verbatim>\<open>PlaceholderVariable\<close>, \<^verbatim>\<open>PastValue\<close>, \<^verbatim>\<open>ReplacePlaceholders\<close>,
  \<^verbatim>\<open>CNTK::Sequence::Last\<close>). The spec describes it as a deferred value with a
  ``replace placeholder with computed value'' operation, ``used to express self-referential
  recurrence: a step function's output feeds back as its own previous-state input'', the
  replaced placeholder ``expressing a fixed point''. A variable of the static graph stands
  for a whole sequence: its value at step \<open>t\<close>, given the value \<open>h\<close> of the placeholder
  at every step, is \<open>v h t\<close>.
\<close>

type_synonym 'a signal = "(nat \<Rightarrow> 'a) \<Rightarrow> nat \<Rightarrow> 'a"

text \<open>
  Modelled from the spec: an input variable holding the ordered sequence \<open>seq\<close>, one
  item for each step (\<open>dflt\<close> beyond its length).
\<close>

definition static_input :: "'a \<Rightarrow> 'a list \<Rightarrow> 'a signal" where
  "static_input dflt seq = (\<lambda>h t. if t < length seq then seq ! t else dflt)"

text \<open>Modelled from the spec: the placeholder is the deferred value itself.\<close>

definition static_PlaceholderVariable :: "'a signal" where
  "static_PlaceholderVariable = (\<lambda>h t. h t)"

text \<open>
  Modelled from the spec: the previous-state input. At step 0 it is the initial state,
  at a later step the value of its argument one step earlier.
\<close>

definition static_PastValue :: "'a \<Rightarrow> 'a signal \<Rightarrow> 'a signal" where
  "static_PastValue initialState v = (\<lambda>h t. if t = 0 then initialState else v h (t - 1))"

text \<open>
  Modelled from the spec: the fixed point that replacing the placeholder by \<open>r\<close>
  expresses. The output \<open>r\<close> is fed back as the placeholder's value; after \<open>t + 1\<close> rounds
  the value at step \<open>t\<close> is settled, since a step only looks at earlier ones.
\<close>

definition static_feedback :: "'a \<Rightarrow> 'a signal \<Rightarrow> nat \<Rightarrow> 'a" where
  "static_feedback dflt r t = ((r ^^ Suc t) (\<lambda>u. dflt)) t"

text \<open>
  Modelled from the spec: ``replace placeholder with computed value''. The graph has one
  placeholder; the variable is read with that placeholder bound to the fed-back value of
  its replacement.
\<close>

definition static_ReplacePlaceholders ::
  "'a \<Rightarrow> 'a signal \<Rightarrow> ('a signal \<times> 'a signal) list \<Rightarrow> 'a signal" where
  "static_ReplacePlaceholders dflt v replacements =
     (case replacements of
        [] \<Rightarrow> v
      | (dh, r) # _ \<Rightarrow> (\<lambda>h. v (static_feedback dflt r)))"

text \<open>
  Modelled from the spec: the ``last'' element of a produced sequence of \<open>len\<close> steps,
  held at every step.
\<close>

definition static_Sequence_Last :: "nat \<Rightarrow> 'a signal \<Rightarrow> 'a signal" where
  "static_Sequence_Last len v = (\<lambda>h t. v h (len - 1))"

text \<open>
  Modelled from the spec: the engine on sequences of \<open>len\<close> steps over a per-step engine
  \<open>eng\<close>. Every tensor operation acts on each step separately; parameters and constants
  are the same at every step.
\<close>

definition static_engine ::
  "('a, 'd) engine \<Rightarrow> nat \<Rightarrow> 'a \<Rightarrow> 'a \<Rightarrow> ('a signal, 'd) engine" where
  "static_engine eng len initialState dflt =
     \<lparr>InferredDimension = InferredDimension eng,
      ParameterVariable = (\<lambda>p h t. ParameterVariable eng p),
      Constant = (\<lambda>shape value device h t. Constant eng shape value device),
      Shape = (\<lambda>v. Shape eng (v (\<lambda>u. dflt) 0)),
      Times_op = (\<lambda>a b h t. Times_op eng (a h t) (b h t)),
      Plus_op = (\<lambda>a b h t. Plus_op eng (a h t) (b h t)),
      ReLU = (\<lambda>a h t. ReLU eng (a h t)),
      Slice = (\<lambda>x axis beginIndex endIndex h t. Slice eng (x h t) axis beginIndex endIndex),
      Reshape = (\<lambda>x shape h t. Reshape eng (x h t) shape),
      Splice = (\<lambda>xs axis h t. Splice eng (map (\<lambda>x. x h t) xs) axis),
      ReduceSum = (\<lambda>x axis h t. ReduceSum eng (x h t) axis),
      PlaceholderVariable = static_PlaceholderVariable,
      PastValue = static_PastValue initialState,
      ReplacePlaceholders = static_ReplacePlaceholders dflt,
      Sequence_Last = static_Sequence_Last len\<rparr>"

section \<open>Properties\<close>

subsection \<open>Auxiliary facts\<close>

lemma len3: "length xs = 3 \<Longrightarrow> xs = [xs ! 0, xs ! 1, xs ! 2]"
  by (auto simp: list_eq_iff_nth_eq less_Suc_eq numeral_3_eq_3 numeral_2_eq_2)

lemma int_of_size_t_small: "n < 2 ^ 31 \<Longrightarrow> int_of_size_t n = int n"
  by (simp add: int_of_size_t_def)

lemma map_loop_eq: "map_loop f batch res = res @ map f batch"
  by (induction batch arbitrary: res) auto

lemma Map_loop_eq:
  "length xBatch \<le> length yBatch \<Longrightarrow> i \<le> length xBatch \<Longrightarrow>
   Map_loop f xBatch yBatch i res = Inr (res @ map2 f (drop i xBatch) (drop i (take (length xBatch) yBatch)))"
proof (induction f xBatch yBatch i res rule: Map_loop.induct)
  case (1 f xBatch yBatch i res)
  show ?case
  proof (cases "i < length xBatch")
    case True
    with "1.prems" have iy: "i < length yBatch" by simp
    have dx: "drop i xBatch = xBatch ! i # drop (Suc i) xBatch"
      using True by (simp add: Cons_nth_drop_Suc)
    have dy: "drop i (take (length xBatch) yBatch) = yBatch ! i # drop (Suc i) (take (length xBatch) yBatch)"
      using True iy by (simp add: Cons_nth_drop_Suc [symmetric])
    from True iy "1.IH" "1.prems" show ?thesis
      by (subst Map_loop.simps) (simp add: dx dy)
  next
    case False
    with "1.prems" show ?thesis
      by (subst Map_loop.simps) simp
  qed
qed

lemma Map_loop_short:
  "length yBatch < length xBatch \<Longrightarrow> i \<le> length yBatch \<Longrightarrow>
   Map_loop f xBatch yBatch i res = Inl (UndefinedBehaviour ''yBatch[i] out of range'')"
proof (induction f xBatch yBatch i res rule: Map_loop.induct)
  case (1 f xBatch yBatch i res)
  show ?case
  proof (cases "i < length yBatch")
    case True
    with "1.IH" "1.prems" show ?thesis
      by (subst Map_loop.simps) simp
  next
    case False
    with "1.prems" show ?thesis
      by (subst Map_loop.simps) simp
  qed
qed

subsection \<open>The loop of \<open>Recurrence\<close>\<close>

text \<open>
  The loop is unfolded one iteration at a time. Its invariant, forwards: the entries
  below \<open>t\<close> are final, and every later entry is \<open>step\<close> of its left neighbour (of
  \<open>initialState\<close> at index 0). Backwards: the entries from \<open>len - t\<close> on are final, and
  every earlier entry is \<open>step\<close> of its right neighbour (of \<open>initialState\<close> at the last
  index).
\<close>

lemma Recurrence_loop_done:
  "\<not> t < length seq \<Longrightarrow>
   Recurrence_loop step s0 goBackwards seq t res calls = (res, calls)"
  by (subst Recurrence_loop.simps) simp

lemma Recurrence_loop_fwd_step:
  "t < length seq \<Longrightarrow>
   Recurrence_loop step s0 False seq t res calls =
   Recurrence_loop step s0 False seq (t + 1)
     (res[t := Base step (if t = 0 then s0 else res ! (t - 1)) (seq ! t)])
     (calls @ [(''step'', [if t = 0 then s0 else res ! (t - 1), seq ! t])])"
  by (subst Recurrence_loop.simps) (simp add: Let_def)

lemma Recurrence_loop_bwd_step:
  "t < length seq \<Longrightarrow>
   Recurrence_loop step s0 True seq t res calls =
   Recurrence_loop step s0 True seq (t + 1)
     (res[length seq - 1 - t :=
        Base step (if t = 0 then s0 else res ! (length seq - 1 - (t - 1)))
          (seq ! (length seq - 1 - t))])
     (calls @ [(''step'', [if t = 0 then s0 else res ! (length seq - 1 - (t - 1)),
                           seq ! (length seq - 1 - t)])])"
  by (subst Recurrence_loop.simps) (simp add: Let_def)

lemma Recurrence_loop_fwd:
  "length res = length seq \<Longrightarrow> t \<le> length seq \<Longrightarrow>
   r = fst (Recurrence_loop step s0 False seq t res calls) \<Longrightarrow>
   length r = length seq \<and> (\<forall>i<t. r ! i = res ! i) \<and>
   (\<forall>i. t \<le> i \<and> i < length seq \<longrightarrow>
        r ! i = Base step (if i = 0 then s0 else r ! (i - 1)) (seq ! i))"
proof (induction "length seq - t" arbitrary: t res calls)
  case 0
  then show ?case
    by (auto simp: Recurrence_loop_done)
next
  case (Suc n)
  then have lt: "t < length seq" by simp
  define prev where "prev = (if t = 0 then s0 else res ! (t - 1))"
  define res' where "res' = res[t := Base step prev (seq ! t)]"
  have r: "r = fst (Recurrence_loop step s0 False seq (t + 1) res' (calls @ [(''step'', [prev, seq ! t])]))"
    using Suc.prems(3) lt
    by (simp add: Recurrence_loop_fwd_step prev_def res'_def)
  have IH: "length r = length seq \<and> (\<forall>i<t + 1. r ! i = res' ! i) \<and>
   (\<forall>i. t + 1 \<le> i \<and> i < length seq \<longrightarrow>
        r ! i = Base step (if i = 0 then s0 else r ! (i - 1)) (seq ! i))"
    using Suc.hyps(2) Suc.prems(1) lt
    by (intro Suc.hyps(1) [OF _ _ _ r]) (simp_all add: res'_def)
  have below: "r ! i = res ! i" if "i < t" for i
    using IH that by (simp add: res'_def)
  have at_t: "r ! t = Base step (if t = 0 then s0 else r ! (t - 1)) (seq ! t)"
  proof -
    have "r ! t = Base step prev (seq ! t)"
      using IH lt Suc.prems(1) by (simp add: res'_def)
    moreover have "prev = (if t = 0 then s0 else r ! (t - 1))"
      using below [of "t - 1"] by (simp add: prev_def)
    ultimately show ?thesis by simp
  qed
  show ?case
  proof (intro conjI allI impI)
    show "length r = length seq" using IH by simp
  next
    fix i assume "i < t" then show "r ! i = res ! i" by (rule below)
  next
    fix i assume "t \<le> i \<and> i < length seq"
    then show "r ! i = Base step (if i = 0 then s0 else r ! (i - 1)) (seq ! i)"
      using at_t IH by (cases "i = t") auto
  qed
qed

lemma Recurrence_loop_bwd:
  "length res = length seq \<Longrightarrow> t \<le> length seq \<Longrightarrow>
   r = fst (Recurrence_loop step s0 True seq t res calls) \<Longrightarrow>
   length r = length seq \<and> (\<forall>i. length seq - t \<le> i \<and> i < length seq \<longrightarrow> r ! i = res ! i) \<and>
   (\<forall>i. i < length seq - t \<longrightarrow>
        r ! i = Base step (if i = length seq - 1 then s0 else r ! (i + 1)) (seq ! i))"
proof (induction "length seq - t" arbitrary: t res calls)
  case 0
  then show ?case
    by (auto simp: Recurrence_loop_done)
next
  case (Suc n)
  then have lt: "t < length seq" by simp
  define len where "len = length seq"
  define k where "k = len - 1 - t"
  define prev where "prev = (if t = 0 then s0 else res ! (len - 1 - (t - 1)))"
  define res' where "res' = res[k := Base step prev (seq ! k)]"
  have k: "k < len" "len - (t + 1) = k" "len - t = Suc k"
    using lt by (simp_all add: k_def len_def)
  have r: "r = fst (Recurrence_loop step s0 True seq (t + 1) res' (calls @ [(''step'', [prev, seq ! k])]))"
    using Suc.prems(3) lt
    by (simp add: Recurrence_loop_bwd_step prev_def res'_def k_def len_def)
  have IH: "length r = length seq \<and>
   (\<forall>i. length seq - (t + 1) \<le> i \<and> i < length seq \<longrightarrow> r ! i = res' ! i) \<and>
   (\<forall>i. i < length seq - (t + 1) \<longrightarrow>
        r ! i = Base step (if i = length seq - 1 then s0 else r ! (i + 1)) (seq ! i))"
    using Suc.hyps(2) Suc.prems(1) lt
    by (intro Suc.hyps(1) [OF _ _ _ r]) (simp_all add: res'_def)
  have above: "r ! i = res ! i" if "Suc k \<le> i" "i < len" for i
    using IH that k by (simp add: res'_def len_def)
  have at_k: "r ! k = Base step (if k = len - 1 then s0 else r ! (k + 1)) (seq ! k)"
  proof -
    have "r ! k = Base step prev (seq ! k)"
      using IH k Suc.prems(1) by (simp add: res'_def len_def)
    moreover have "prev = (if k = len - 1 then s0 else r ! (k + 1))"
    proof (cases "t = 0")
      case True
      then show ?thesis by (simp add: prev_def k_def)
    next
      case False
      then have "len - 1 - (t - 1) = k + 1" "k \<noteq> len - 1" "k + 1 < len"
        using lt by (simp_all add: k_def len_def)
      then show ?thesis
        using above [of "k + 1"] False by (simp add: prev_def)
    qed
    ultimately show ?thesis by simp
  qed
  show ?case
  proof (intro conjI allI impI)
    show "length r = length seq" using IH by simp
  next
    fix i assume "length seq - t \<le> i \<and> i < length seq"
    then show "r ! i = res ! i" using above [of i] k by (simp add: len_def)
  next
    fix i assume "i < length seq - t"
    then have "i < k \<or> i = k" using k by (auto simp: len_def)
    then show "r ! i = Base step (if i = length seq - 1 then s0 else r ! (i + 1)) (seq ! i)"
      using at_k IH k by (auto simp: len_def)
  qed
qed

lemma Recurrence_loop_calls_length:
  "t \<le> length seq \<Longrightarrow>
   length (snd (Recurrence_loop step s0 b seq t res calls)) = length calls + (length seq - t)"
proof (induction "length seq - t" arbitrary: t res calls)
  case 0
  then show ?case by (simp add: Recurrence_loop_done)
next
  case (Suc n)
  then have lt: "t < length seq" by simp
  show ?case
  proof (cases b)
    case True
    with Suc lt show ?thesis
      by (simp add: Recurrence_loop_bwd_step)
  next
    case False
    with Suc lt show ?thesis
      by (simp add: Recurrence_loop_fwd_step)
  qed
qed


lemma Recurrence_loop_fwd_calls:
  "length res = length seq \<Longrightarrow> t \<le> length seq \<Longrightarrow> length calls = t \<Longrightarrow>
   r = fst (Recurrence_loop step s0 False seq t res calls) \<Longrightarrow>
   c = snd (Recurrence_loop step s0 False seq t res calls) \<Longrightarrow>
   length c = length seq \<and> (\<forall>j<t. c ! j = calls ! j) \<and>
   (\<forall>j. t \<le> j \<and> j < length seq \<longrightarrow>
        c ! j = (''step'', [if j = 0 then s0 else r ! (j - 1), seq ! j]))"
proof (induction "length seq - t" arbitrary: t res calls)
  case 0
  then show ?case
    by (auto simp: Recurrence_loop_done)
next
  case (Suc n)
  then have lt: "t < length seq" by simp
  define prev where "prev = (if t = 0 then s0 else res ! (t - 1))"
  define res' where "res' = res[t := Base step prev (seq ! t)]"
  define calls' where "calls' = calls @ [(''step'', [prev, seq ! t])]"
  have unfold: "Recurrence_loop step s0 False seq t res calls =
                Recurrence_loop step s0 False seq (t + 1) res' calls'"
    using lt by (simp add: Recurrence_loop_fwd_step prev_def res'_def calls'_def)
  have r: "r = fst (Recurrence_loop step s0 False seq (t + 1) res' calls')"
    and c: "c = snd (Recurrence_loop step s0 False seq (t + 1) res' calls')"
    using Suc.prems(4,5) unfold by simp_all
  have len': "length res' = length seq" "t + 1 \<le> length seq" "length calls' = t + 1"
    using Suc.prems(1,3) lt by (simp_all add: res'_def calls'_def)
  have n: "n = length seq - (t + 1)"
    using Suc.hyps(2) by simp
  have IH: "length c = length seq \<and> (\<forall>j<t + 1. c ! j = calls' ! j) \<and>
   (\<forall>j. t + 1 \<le> j \<and> j < length seq \<longrightarrow>
        c ! j = (''step'', [if j = 0 then s0 else r ! (j - 1), seq ! j]))"
    by (rule Suc.hyps(1) [OF n len' r c])
  have vals: "\<forall>i<t + 1. r ! i = res' ! i"
    using Recurrence_loop_fwd [OF len'(1,2) r] by simp
  have prev: "prev = (if t = 0 then s0 else r ! (t - 1))"
    using vals by (simp add: prev_def res'_def)
  have at_t: "c ! t = (''step'', [if t = 0 then s0 else r ! (t - 1), seq ! t])"
    using IH Suc.prems(3) prev by (simp add: calls'_def nth_append)
  show ?case
  proof (intro conjI allI impI)
    show "length c = length seq" using IH by simp
  next
    fix j assume "j < t"
    then show "c ! j = calls ! j"
      using IH Suc.prems(3) by (simp add: calls'_def nth_append)
  next
    fix j assume "t \<le> j \<and> j < length seq"
    then show "c ! j = (''step'', [if j = 0 then s0 else r ! (j - 1), seq ! j])"
      using at_t IH by (cases "j = t") auto
  qed
qed

lemma Recurrence_loop_bwd_calls:
  "length res = length seq \<Longrightarrow> t \<le> length seq \<Longrightarrow> length calls = t \<Longrightarrow>
   r = fst (Recurrence_loop step s0 True seq t res calls) \<Longrightarrow>
   c = snd (Recurrence_loop step s0 True seq t res calls) \<Longrightarrow>
   length c = length seq \<and> (\<forall>j<t. c ! j = calls ! j) \<and>
   (\<forall>j. t \<le> j \<and> j < length seq \<longrightarrow>
        c ! j = (''step'', [if j = 0 then s0 else r ! (length seq - j),
                            seq ! (length seq - 1 - j)]))"
proof (induction "length seq - t" arbitrary: t res calls)
  case 0
  then show ?case
    by (auto simp: Recurrence_loop_done)
next
  case (Suc n)
  then have lt: "t < length seq" by simp
  define k where "k = length seq - 1 - t"
  define prev where "prev = (if t = 0 then s0 else res ! (length seq - 1 - (t - 1)))"
  define res' where "res' = res[k := Base step prev (seq ! k)]"
  define calls' where "calls' = calls @ [(''step'', [prev, seq ! k])]"
  have unfold: "Recurrence_loop step s0 True seq t res calls =
                Recurrence_loop step s0 True seq (t + 1) res' calls'"
    using lt by (simp add: Recurrence_loop_bwd_step prev_def res'_def calls'_def k_def)
  have r: "r = fst (Recurrence_loop step s0 True seq (t + 1) res' calls')"
    and c: "c = snd (Recurrence_loop step s0 True seq (t + 1) res' calls')"
    using Suc.prems(4,5) unfold by simp_all
  have len': "length res' = length seq" "t + 1 \<le> length seq" "length calls' = t + 1"
    using Suc.prems(1,3) lt by (simp_all add: res'_def calls'_def)
  have n: "n = length seq - (t + 1)"
    using Suc.hyps(2) by simp
  have IH: "length c = length seq \<and> (\<forall>j<t + 1. c ! j = calls' ! j) \<and>
   (\<forall>j. t + 1 \<le> j \<and> j < length seq \<longrightarrow>
        c ! j = (''step'', [if j = 0 then s0 else r ! (length seq - j),
                            seq ! (length seq - 1 - j)]))"
    by (rule Suc.hyps(1) [OF n len' r c])
  have vals: "\<forall>i. length seq - (t + 1) \<le> i \<and> i < length seq \<longrightarrow> r ! i = res' ! i"
    using Recurrence_loop_bwd [OF len'(1,2) r] by simp
  have prev: "prev = (if t = 0 then s0 else r ! (length seq - t))"
  proof (cases "t = 0")
    case True
    then show ?thesis by (simp add: prev_def)
  next
    case False
    then have e: "length seq - 1 - (t - 1) = length seq - t" "length seq - t \<noteq> k"
        "length seq - (t + 1) \<le> length seq - t" "length seq - t < length seq"
      using lt by (simp_all add: k_def)
    have "r ! (length seq - t) = res' ! (length seq - t)"
      using vals e by blast
    then show ?thesis
      using False e by (simp add: prev_def res'_def)
  qed
  have at_t: "c ! t = (''step'', [if t = 0 then s0 else r ! (length seq - t),
                                  seq ! (length seq - 1 - t)])"
    using IH Suc.prems(3) prev by (simp add: calls'_def nth_append k_def)
  show ?case
  proof (intro conjI allI impI)
    show "length c = length seq" using IH by simp
  next
    fix j assume "j < t"
    then show "c ! j = calls ! j"
      using IH Suc.prems(3) by (simp add: calls'_def nth_append)
  next
    fix j assume "t \<le> j \<and> j < length seq"
    then show "c ! j = (''step'', [if j = 0 then s0 else r ! (length seq - j),
                                   seq ! (length seq - 1 - j)])"
      using at_t IH by (cases "j = t") auto
  qed
qed

subsection \<open>Recurrence\<close>

text \<open>
  C1. For every binary step model, initial state and input sequence of length \<open>N\<close>, the
  model built by \<open>Recurrence\<close> with \<open>goBackwards = false\<close> returns \<open>N\<close> elements, element
  0 being \<open>step(s0, seq[0])\<close> and element \<open>t\<close> (\<open>1 \<le> t < N\<close>) being
  \<open>step(result[t-1], seq[t])\<close>. With \<open>goBackwards = true\<close> it returns \<open>N\<close> elements,
  \<open>result[N-1] = step(s0, seq[N-1])\<close> and
  \<open>result[N-1-t] = step(result[N-t], seq[N-1-t])\<close>.
\<close>

theorem Recurrence_spec:
  "fwd = Base (Recurrence Variable0 step s0 False) seq \<Longrightarrow>
   bwd = Base (Recurrence Variable0 step s0 True) seq \<Longrightarrow>
   N = length seq \<Longrightarrow>
   length fwd = N \<and> length bwd = N \<and>
   (0 < N \<longrightarrow>
      fwd ! 0 = Base step s0 (seq ! 0) \<and>
      bwd ! (N - 1) = Base step s0 (seq ! (N - 1))) \<and>
   (1 \<le> t \<and> t < N \<longrightarrow>
      fwd ! t = Base step (fwd ! (t - 1)) (seq ! t) \<and>
      bwd ! (N - 1 - t) = Base step (bwd ! (N - t)) (seq ! (N - 1 - t)))"
proof -
  assume fwd_def: "fwd = Base (Recurrence Variable0 step s0 False) seq"
    and bwd_def: "bwd = Base (Recurrence Variable0 step s0 True) seq"
    and N_def: "N = length seq"
  have f: "fwd = fst (Recurrence_loop step s0 False seq 0 (replicate (length seq) Variable0) [])"
    and b: "bwd = fst (Recurrence_loop step s0 True seq 0 (replicate (length seq) Variable0) [])"
    by (simp_all add: fwd_def bwd_def Recurrence_def ModelT1_def Recurrence_run_def)
  have F: "length fwd = N"
    and F': "\<And>i. i < N \<Longrightarrow>
      fwd ! i = Base step (if i = 0 then s0 else fwd ! (i - 1)) (seq ! i)"
    using Recurrence_loop_fwd [OF _ _ f] by (simp_all add: N_def)
  have B: "length bwd = N"
    and B': "\<And>i. i < N \<Longrightarrow>
      bwd ! i = Base step (if i = N - 1 then s0 else bwd ! (i + 1)) (seq ! i)"
    using Recurrence_loop_bwd [OF _ _ b] by (simp_all add: N_def)
  have F0: "fwd ! 0 = Base step s0 (seq ! 0)" if "0 < N"
    using F' [OF that] by simp
  have Ft: "fwd ! t = Base step (fwd ! (t - 1)) (seq ! t)" if "1 \<le> t \<and> t < N"
    using F' [of t] that by simp
  have B0: "bwd ! (N - 1) = Base step s0 (seq ! (N - 1))" if "0 < N"
    using B' [of "N - 1"] that by simp
  have Bt: "bwd ! (N - 1 - t) = Base step (bwd ! (N - t)) (seq ! (N - 1 - t))"
    if "1 \<le> t \<and> t < N"
  proof -
    from that have "N - 1 - t < N" "N - 1 - t \<noteq> N - 1" "N - 1 - t + 1 = N - t" by auto
    then show ?thesis using B' [of "N - 1 - t"] by simp
  qed
  show ?thesis
    using F B F0 Ft B0 Bt by blast
qed

theorem Recurrence_spec_witness:
  "Base (Recurrence 0 (ModelT1 (\<lambda>p x. 2 * p + x) :: (int \<Rightarrow> int \<Rightarrow> int, unit) ModelT) 1 False)
     [1, 2, 3] = [3, 8, 19] \<and>
   Base (Recurrence 0 (ModelT1 (\<lambda>p x. 2 * p + x) :: (int \<Rightarrow> int \<Rightarrow> int, unit) ModelT) 1 True)
     [1, 2, 3] = [25, 12, 5]"
proof -
  define step :: "(int \<Rightarrow> int \<Rightarrow> int, unit) ModelT" where "step = ModelT1 (\<lambda>p x. 2 * p + x)"
  define fwd where "fwd = Base (Recurrence 0 step 1 False) [1, 2, 3 :: int]"
  define bwd where "bwd = Base (Recurrence 0 step 1 True) [1, 2, 3 :: int]"
  have N: "(3::nat) = length [1, 2, 3 :: int]" by simp
  note spec = Recurrence_spec [OF fwd_def bwd_def N]
  have s: "Base step p x = 2 * p + x" for p x
    by (simp add: step_def ModelT1_def)
  from spec [of 1] have 1: "length fwd = 3" "fwd ! 0 = 3" "fwd ! 1 = 2 * (fwd ! 0) + 2"
     "length bwd = 3" "bwd ! 2 = 5" "bwd ! 1 = 2 * (bwd ! 2) + 2"
    by (simp_all add: s)
  from spec [of 2] have 2: "fwd ! 2 = 2 * (fwd ! 1) + 3" "bwd ! 0 = 2 * (bwd ! 1) + 1"
    by (simp_all add: s)
  have "fwd = [3, 8, 19]"
    using len3 [of fwd] 1 2 by simp
  moreover have "bwd = [25, 12, 5]"
    using len3 [of bwd] 1 2 by simp
  ultimately show ?thesis
    by (simp add: fwd_def bwd_def step_def)
qed

text \<open>
  The order of the calls: the \<open>j\<close>-th call of \<open>step\<close> consumes \<open>seq[j]\<close> forwards and
  \<open>seq[N-1-j]\<close> backwards, so the backward recursion runs from the last index down to 0.
\<close>

lemma Recurrence_run_calls:
  "j < length seq \<Longrightarrow>
   snd (Recurrence_run Variable0 step s0 False seq) ! j =
     (''step'', [if j = 0 then s0 else fst (Recurrence_run Variable0 step s0 False seq) ! (j - 1),
                 seq ! j]) \<and>
   snd (Recurrence_run Variable0 step s0 True seq) ! j =
     (''step'', [if j = 0 then s0
                 else fst (Recurrence_run Variable0 step s0 True seq) ! (length seq - j),
                 seq ! (length seq - 1 - j)]) \<and>
   length (snd (Recurrence_run Variable0 step s0 goBackwards seq)) = length seq"
  using Recurrence_loop_fwd_calls [of "replicate (length seq) Variable0" seq 0 "[]" _ step s0]
        Recurrence_loop_bwd_calls [of "replicate (length seq) Variable0" seq 0 "[]" _ step s0]
        Recurrence_loop_calls_length [of 0 seq step s0 goBackwards]
  by (simp add: Recurrence_run_def)

text \<open>
  C10. For every step model, initial state and direction, \<open>Recurrence\<close> applied to the
  empty sequence returns the empty sequence and makes no call of \<open>step\<close>; the result
  mentions neither \<open>step\<close> nor the initial state.
\<close>

theorem Recurrence_empty:
  "Recurrence_run Variable0 step s0 goBackwards [] = ([], []) \<and>
   Base (Recurrence Variable0 step s0 goBackwards) [] = []"
  by (simp add: Recurrence_def ModelT1_def Recurrence_run_def Recurrence_loop_done)

subsection \<open>Batch maps\<close>

lemma Map_loop_equal_length:
  "length yBatch = length xBatch \<Longrightarrow> Map_loop f xBatch yBatch 0 [] = Inr (map2 f xBatch yBatch)"
  using Map_loop_eq [of xBatch yBatch 0 f "[]"] by simp

lemma Map_loop_truncates:
  "length xBatch < length yBatch \<Longrightarrow>
   Map_loop f xBatch yBatch 0 [] = Inr (map2 f xBatch (take (length xBatch) yBatch))"
  using Map_loop_eq [of xBatch yBatch 0 f "[]"] by simp

text \<open>
  C8. For all item lists \<open>A\<close> and \<open>B\<close> of equal length \<open>N\<close> and every binary model \<open>f\<close>,
  the binary \<open>Batch::Map\<close> pairing returns a list of length \<open>N\<close> whose element \<open>i\<close> is
  \<open>f(A[i], B[i])\<close>; the unary \<open>Batch::map\<close> returns a list of the length of its input
  whose element \<open>i\<close> is \<open>g(A[i])\<close>. This holds with and without \<^verbatim>\<open>NDEBUG\<close>.
\<close>

theorem Batch_Map_elementwise:
  "length A = length B \<Longrightarrow>
   (\<exists>res. Batch_Map_Binary NDEBUG f A B = Inr res \<and> length res = length A \<and>
          (i < length A \<longrightarrow> res ! i = Base f (A ! i) (B ! i))) \<and>
   length (Batch_map g A) = length A \<and>
   (i < length A \<longrightarrow> Batch_map g A ! i = Base g (A ! i))"
  by (simp add: Batch_Map_Binary_def Map_loop_equal_length Batch_map_def map_loop_eq)

theorem Batch_Map_elementwise_witness:
  "Batch_Map_Binary False (ModelT1 (\<lambda>a b. a * b) :: (int \<Rightarrow> int \<Rightarrow> int, unit) ModelT)
     [2, 3, 5] [7, 11, 13] = Inr [14, 33, 65] \<and>
   Batch_map (ModelT1 (\<lambda>a. a + 1) :: (int \<Rightarrow> int, unit) ModelT) [2, 3, 5] = [3, 4, 6]"
proof -
  define f :: "(int \<Rightarrow> int \<Rightarrow> int, unit) ModelT" where "f = ModelT1 (\<lambda>a b. a * b)"
  define g :: "(int \<Rightarrow> int, unit) ModelT" where "g = ModelT1 (\<lambda>a. a + 1)"
  define A :: "int list" where "A = [2, 3, 5]"
  define B :: "int list" where "B = [7, 11, 13]"
  have len: "length A = length B" by (simp add: A_def B_def)
  have i: "0 < length A" "1 < length A" "2 < length A" by (simp_all add: A_def)
  note at = Batch_Map_elementwise [OF len, of False f _ g]
  from at [of 0] at [of 1] at [of 2] i
  obtain res where res: "Batch_Map_Binary False f A B = Inr res" "length res = 3"
      "res ! 0 = 14" "res ! 1 = 33" "res ! 2 = 65"
    by (auto simp: f_def ModelT1_def A_def B_def)
  from at [of 0] at [of 1] at [of 2] i
  have m: "length (Batch_map g A) = 3" "Batch_map g A ! 0 = 3" "Batch_map g A ! 1 = 4"
      "Batch_map g A ! 2 = 6"
    by (simp_all add: g_def ModelT1_def A_def)
  have "res = [14, 33, 65]"
    using len3 [of res] res by simp
  moreover have "Batch_map g A = [3, 4, 6]"
    using len3 [of "Batch_map g A"] m by simp
  ultimately show ?thesis
    using res(1) by (simp add: f_def g_def A_def B_def)
qed

text \<open>
  C3, as amended. In a build that compiles assertions in (\<^verbatim>\<open>NDEBUG\<close> not defined), the
  binary and the binary-sequence \<open>Batch::Map\<close> pairings fail with the assertion
  \<^verbatim>\<open>yBatch.size() == xBatch.size()\<close> whenever the two batches have unequal lengths.
\<close>

theorem Batch_Map_unequal_asserts:
  "\<not> NDEBUG \<Longrightarrow>
   (length yBatch \<noteq> length xBatch \<longrightarrow>
      Batch_Map_Binary NDEBUG f xBatch yBatch =
        Inl (AssertionFailure ''yBatch.size() == xBatch.size()'')) \<and>
   (length ysBatch \<noteq> length xsBatch \<longrightarrow>
      Batch_Map_BinarySequence NDEBUG g xsBatch ysBatch =
        Inl (AssertionFailure ''yBatch.size() == xBatch.size()''))"
  by (simp add: Batch_Map_Binary_def Batch_Map_BinarySequence_def)

theorem Batch_Map_unequal_asserts_witness:
  "Batch_Map_Binary False (ModelT1 (\<lambda>a b. a * b) :: (int \<Rightarrow> int \<Rightarrow> int, unit) ModelT)
     [2] [7, 11] = Inl (AssertionFailure ''yBatch.size() == xBatch.size()'') \<and>
   Batch_Map_BinarySequence False
     (ModelT1 (\<lambda>a b. a @ b) :: (int list \<Rightarrow> int list \<Rightarrow> int list, unit) ModelT)
     [[2], [3]] [[7]] = Inl (AssertionFailure ''yBatch.size() == xBatch.size()'')"
  using Batch_Map_unequal_asserts [of False "[7, 11 :: int]" "[2 :: int]"
      "ModelT1 (\<lambda>a b. a * b) :: (int \<Rightarrow> int \<Rightarrow> int, unit) ModelT"
      "[[7 :: int]]" "[[2], [3 :: int]]"
      "ModelT1 (\<lambda>a b. a @ b) :: (int list \<Rightarrow> int list \<Rightarrow> int list, unit) ModelT"]
  by simp

text \<open>
  C3 as stated fails: the length check is an \<^verbatim>\<open>assert\<close>, and with \<^verbatim>\<open>NDEBUG\<close> defined the
  pairing of a one-item batch with a two-item batch returns one result, the second batch
  truncated to the length of the first.
\<close>

theorem Batch_Map_truncates_counterexample:
  "length [7, 11 :: int] \<noteq> length [2 :: int] \<and>
   Batch_Map_Binary True (ModelT1 (\<lambda>a b. a * b) :: (int \<Rightarrow> int \<Rightarrow> int, unit) ModelT)
     [2] [7, 11] = Inr [14]"
  by (simp add: Batch_Map_Binary_def Map_loop.simps ModelT1_def)

text \<open>
  With \<^verbatim>\<open>NDEBUG\<close> the pairing never checks the lengths: a longer second batch is
  truncated, a shorter one is read out of range.
\<close>

lemma Batch_Map_NDEBUG:
  "Batch_Map_Binary True f xBatch yBatch =
     (if length yBatch < length xBatch then Inl (UndefinedBehaviour ''yBatch[i] out of range'')
      else Inr (map2 (Base f) xBatch (take (length xBatch) yBatch)))"
  using Map_loop_short [of yBatch xBatch 0 "Base f" "[]"]
        Map_loop_eq [of xBatch yBatch 0 "Base f" "[]"]
  by (simp add: Batch_Map_Binary_def)

subsection \<open>Parameter lookup\<close>

lemma ParameterBlock_insert_unnamed:
  "ParameterBlock_insert parameters m = Inr m' \<Longrightarrow> m [] = None \<Longrightarrow> m' [] = None"
proof (induction parameters arbitrary: m)
  case Nil
  then show ?case by simp
next
  case (Cons p parameters)
  from Cons.prems(1) have named: "Name p \<noteq> []"
    by (auto split: if_splits)
  let ?m = "case m (Name p) of None \<Rightarrow> m(Name p \<mapsto> p) | Some _ \<Rightarrow> m"
  from Cons.prems(1) named have "ParameterBlock_insert parameters ?m = Inr m'"
    by simp
  moreover from Cons.prems(2) named have "?m [] = None"
    by (auto split: option.splits)
  ultimately show ?case by (rule Cons.IH)
qed

text \<open>
  C4. For every name not present in a block's parameter map, \<open>lookup\<close>
  (\<^verbatim>\<open>ParameterBlock::operator[]\<close>) fails with the error \<open>no such parameter: name\<close>; no
  parameter is returned. The empty name is never present in a block the constructor built,
  so looking it up always fails.
\<close>

theorem ParameterBlock_index_absent:
  "(m_parameters pb name = None \<longrightarrow>
      ParameterBlock_index pb name = Inl (LogicError (''no such parameter: '' @ name))) \<and>
   (ParameterBlock_new parameters nested = Inr pb' \<longrightarrow>
      ParameterBlock_index pb' [] = Inl (LogicError ''no such parameter: ''))"
proof (intro conjI impI)
  assume "m_parameters pb name = None"
  then show "ParameterBlock_index pb name = Inl (LogicError (''no such parameter: '' @ name))"
    by (simp add: ParameterBlock_index_def)
next
  assume "ParameterBlock_new parameters nested = Inr pb'"
  then obtain m where "ParameterBlock_insert parameters Map.empty = Inr m"
      and "pb' = ParameterBlock m nested"
    by (auto simp: ParameterBlock_new_def split: sum.splits)
  then have "m_parameters pb' [] = None"
    using ParameterBlock_insert_unnamed [of parameters Map.empty m] by simp
  then show "ParameterBlock_index pb' [] = Inl (LogicError ''no such parameter: '')"
    by (simp add: ParameterBlock_index_def)
qed

theorem ParameterBlock_index_absent_witness:
  "ParameterBlock_new [Parameter [25, 25] GlorotUniformInitializer () ''R''] Map.empty =
     Inr (ParameterBlock [''R'' \<mapsto> Parameter [25, 25] GlorotUniformInitializer () ''R''] Map.empty) \<and>
   ParameterBlock_index
     (ParameterBlock [''R'' \<mapsto> Parameter [25, 25] GlorotUniformInitializer () ''R''] Map.empty) ''W'' =
     Inl (LogicError ''no such parameter: W'') \<and>
   ParameterBlock_index
     (ParameterBlock [''R'' \<mapsto> Parameter [25, 25] GlorotUniformInitializer () ''R''] Map.empty) [] =
     Inl (LogicError ''no such parameter: '')"
proof -
  define R :: "unit Parameter" where "R = Parameter [25, 25] GlorotUniformInitializer () ''R''"
  define pb :: "unit ParameterBlock" where "pb = ParameterBlock [''R'' \<mapsto> R] Map.empty"
  have new: "ParameterBlock_new [R] Map.empty = Inr pb"
    by (simp add: ParameterBlock_new_def pb_def R_def)
  have absent: "m_parameters pb ''W'' = None"
    by (simp add: pb_def)
  from ParameterBlock_index_absent [of pb "''W''" "[R]" Map.empty pb] new absent
  show ?thesis
    by (simp add: pb_def R_def)
qed

subsection \<open>Batch sums\<close>

lemma sum_seqItems_eq: "sum_seqItems batchItem allSummands = allSummands @ batchItem"
  by (induction batchItem arbitrary: allSummands) auto

lemma sum_batchItems_eq: "sum_batchItems batch allSummands = allSummands @ concat batch"
  by (induction batch arbitrary: allSummands) (auto simp: sum_seqItems_eq)

text \<open>
  C9. \<open>Batch::sum\<close> reads the first element of its input unconditionally, so it is
  defined exactly on the non-empty lists: on the empty list it is the undefined
  \<^verbatim>\<open>front()\<close>, on a non-empty one it is the reshaped reduction. The nested overload sums
  the flattened list, so it is defined exactly when some sequence of the batch has an item;
  a batch of empty sequences is outside its domain.
\<close>

theorem Batch_sum_nonempty:
  "(batch = [] \<longrightarrow> Batch_sum eng batch = Inl (UndefinedBehaviour ''front() of an empty vector'')) \<and>
   (batch \<noteq> [] \<longrightarrow> Batch_sum eng batch =
      Inr (Reshape eng
             (ReduceSum eng (Splice eng batch (int_of_size_t (length (Shape eng (hd batch)))))
                (int_of_size_t (length (Shape eng (hd batch)))))
             (Shape eng (hd batch)))) \<and>
   (concat batches = [] \<longrightarrow>
      Batch_sum_nested eng batches = Inl (UndefinedBehaviour ''front() of an empty vector'')) \<and>
   (concat batches \<noteq> [] \<longrightarrow> Batch_sum_nested eng batches = Batch_sum eng (concat batches))"
proof -
  have nested: "Batch_sum_nested eng batches = Batch_sum eng (concat batches)"
    by (simp add: Batch_sum_nested_def sum_batchItems_eq)
  have empty: "Batch_sum eng [] = Inl (UndefinedBehaviour ''front() of an empty vector'')"
    by (simp add: Batch_sum_def)
  have nonempty: "Batch_sum eng batch =
      Inr (Reshape eng
             (ReduceSum eng (Splice eng batch (int_of_size_t (length (Shape eng (hd batch)))))
                (int_of_size_t (length (Shape eng (hd batch)))))
             (Shape eng (hd batch)))" if "batch \<noteq> []"
    using that by (cases batch) (simp_all add: Batch_sum_def Let_def)
  show ?thesis
    using nested empty nonempty by metis
qed

theorem Batch_sum_nonempty_witness:
  "Batch_sum symbolic_engine [] = Inl (UndefinedBehaviour ''front() of an empty vector'') \<and>
   Batch_sum symbolic_engine [Node ''a'' [] [] [5], Node ''b'' [] [] [5]] =
     Inr (Node ''Reshape'' []
            [Node ''ReduceSum'' [1]
               [Node ''Splice'' [1] [Node ''a'' [] [] [5], Node ''b'' [] [] [5]] [5, 2]] [5, 1]]
            [5]) \<and>
   Batch_sum_nested symbolic_engine [[], []] =
     Inl (UndefinedBehaviour ''front() of an empty vector'') \<and>
   Batch_sum_nested symbolic_engine [[Node ''a'' [] [] [5]], [], [Node ''b'' [] [] [5]]] =
     Batch_sum symbolic_engine [Node ''a'' [] [] [5], Node ''b'' [] [] [5]]"
  using Batch_sum_nonempty [of "[]" symbolic_engine "[[], []]"]
        Batch_sum_nonempty [of "[Node ''a'' [] [] [5], Node ''b'' [] [] [5]]" symbolic_engine
          "[[Node ''a'' [] [] [5]], [], [Node ''b'' [] [] [5]]]"]
  by (simp add: symbolic_engine_def int_of_size_t_small)

subsection \<open>Fold\<close>

lemma Sequence_Fold_unfold:
  "\<exists>m pb. Sequence_Fold eng stepFunction = Inr m \<and>
     Base m = (\<lambda>x. Sequence_Last eng (Base (Sequence_Recurrence eng stepFunction) x)) \<and>
     GetParameterBlock m = Some pb \<and>
     m_parameters pb = Map.empty \<and>
     m_parentParameters pb ''step'' = Some (GetParameterBlock stepFunction) \<and>
     dom (m_parentParameters pb) = {''step''}"
  by (simp add: Sequence_Fold_def ModelT3_def ParameterBlock_new_def GetParameterBlock_def)

text \<open>
  On the modelled static graph, feeding the output of the step function back as its own
  previous state settles, step by step, on the elements that the loop of \<open>Recurrence\<close>
  writes.
\<close>

lemma static_feedback_Recurrence:
  assumes r: "r = fst (Recurrence_loop step s0 False seq 0 (replicate (length seq) Variable0) [])"
    and rec: "rec = (\<lambda>h t.
                Base step (if t = 0 then s0 else h (t - 1)) (if t < length seq then seq ! t else dflt))"
  shows "t < length seq \<Longrightarrow> static_feedback dflt rec t = r ! t"
proof (induction t)
  case 0
  then show ?case
    using Recurrence_loop_fwd [OF _ _ r] by (simp add: static_feedback_def rec)
next
  case (Suc t)
  then have IH: "static_feedback dflt rec t = r ! t" by simp
  have "static_feedback dflt rec (Suc t) = rec ((rec ^^ Suc t) (\<lambda>u. dflt)) (Suc t)"
    by (simp add: static_feedback_def)
  also have "\<dots> = Base step ((rec ^^ Suc t) (\<lambda>u. dflt) t) (seq ! Suc t)"
    using Suc.prems by (simp add: rec)
  also have "(rec ^^ Suc t) (\<lambda>u. dflt) t = r ! t"
    using IH by (simp add: static_feedback_def)
  also have "Base step (r ! t) (seq ! Suc t) = r ! Suc t"
    using Recurrence_loop_fwd [OF _ _ r] Suc.prems by simp
  finally show ?case .
qed

lemma static_Recurrence_last:
  assumes r: "r = fst (Recurrence_loop step s0 False seq 0 (replicate (length seq) Variable0) [])"
    and rec: "rec = (\<lambda>h t.
                Base step (if t = 0 then s0 else h (t - 1)) (if t < length seq then seq ! t else dflt))"
    and ne: "seq \<noteq> []"
  shows "rec (static_feedback dflt rec) (length seq - 1) = last r"
proof -
  let ?n = "length seq - 1"
  from ne have n: "?n < length seq" by simp
  have len: "length r = length seq"
    using Recurrence_loop_fwd [OF _ _ r] by simp
  have "rec (static_feedback dflt rec) ?n = r ! ?n"
  proof (cases "?n = 0")
    case True
    then show ?thesis
      using Recurrence_loop_fwd [OF _ _ r] n by (simp add: rec)
  next
    case False
    then have "?n - 1 < length seq" using n by simp
    from static_feedback_Recurrence [OF r rec this]
    have "static_feedback dflt rec (?n - 1) = r ! (?n - 1)" .
    moreover have "r ! ?n = Base step (r ! (?n - 1)) (seq ! ?n)"
      using Recurrence_loop_fwd [OF _ _ r] n False by simp
    ultimately show ?thesis
      using False n by (simp add: rec)
  qed
  also have "\<dots> = last r"
  proof -
    from len ne have "r \<noteq> []" by auto
    then show ?thesis by (simp add: last_conv_nth len)
  qed
  finally show ?thesis .
qed

text \<open>
  The modelled engine has the four operations of the placeholder mechanism as its fields,
  and the step model \<open>RNNStep\<close> built on it acts on each step as \<open>RNNStep\<close> built on
  the per-step engine does, with the same parameter block.
\<close>

lemma static_engine_fields:
  "PlaceholderVariable (static_engine eng len initialState dflt) = static_PlaceholderVariable"
  "PastValue (static_engine eng len initialState dflt) = static_PastValue initialState"
  "ReplacePlaceholders (static_engine eng len initialState dflt) = static_ReplacePlaceholders dflt"
  "Sequence_Last (static_engine eng len initialState dflt) = static_Sequence_Last len"
  by (simp_all add: static_engine_def)

lemma RNNStep_static_engine:
  "\<exists>stepFunction step.
     RNNStep (static_engine eng len initialState dflt) outputDim device = Inr stepFunction \<and>
     RNNStep eng outputDim device = Inr step \<and>
     GetParameterBlock stepFunction = GetParameterBlock step \<and>
     (\<forall>p x h t. Base stepFunction p x h t = Base step (p h t) (x h t))"
  by (simp add: RNNStep_def ModelT2_def ParameterBlock_new_def Let_def static_engine_def
        GetParameterBlock_def)

text \<open>
  C2. For every binary step model and every non-empty input sequence, the model built by
  \<open>Fold(step)\<close>, applied to the sequence as one variable of the static graph, returns
  at every step the last element of the sequence that \<open>Recurrence\<close> (forwards, same step
  model, same initial state) returns on the same sequence: the final state of the
  recurrence. The Fold model's own parameter map is empty and its nested map holds exactly
  the step model's parameter block, under the key \<open>step\<close>. The host's placeholder,
  \<open>PastValue\<close>, \<open>ReplacePlaceholders\<close> and \<open>Sequence::Last\<close> are the ones modelled
  from the spec, and the step model is one that acts on each step of a sequence separately.
\<close>

theorem Sequence_Fold_final_state:
  assumes placeholder: "PlaceholderVariable eng = static_PlaceholderVariable"
    and past: "PastValue eng = static_PastValue initialState"
    and replace: "ReplacePlaceholders eng = static_ReplacePlaceholders dflt"
    and last: "Sequence_Last eng = static_Sequence_Last (length seq)"
    and lifted: "\<And>p x h t. Base stepFunction p x h t = Base step (p h t) (x h t)"
    and ne: "seq \<noteq> []"
  shows "\<exists>m pb. Sequence_Fold eng stepFunction = Inr m \<and>
     (\<forall>h t. Base m (static_input dflt seq) h t =
            last (Base (Recurrence Variable0 step initialState False) seq)) \<and>
     GetParameterBlock m = Some pb \<and>
     m_parameters pb = Map.empty \<and>
     m_parentParameters pb ''step'' = Some (GetParameterBlock stepFunction) \<and>
     dom (m_parentParameters pb) = {''step''}"
proof -
  define r where
    "r = fst (Recurrence_loop step initialState False seq 0 (replicate (length seq) Variable0) [])"
  define rec where
    "rec = Base stepFunction (static_PastValue initialState static_PlaceholderVariable)
             (static_input dflt seq)"
  have rec: "rec = (\<lambda>h t.
      Base step (if t = 0 then initialState else h (t - 1))
        (if t < length seq then seq ! t else dflt))"
    by (simp add: rec_def lifted static_PastValue_def static_PlaceholderVariable_def
          static_input_def fun_eq_iff)
  have recurrence: "Base (Sequence_Recurrence eng stepFunction) (static_input dflt seq) =
      (\<lambda>h. rec (static_feedback dflt rec))"
    by (simp add: Sequence_Recurrence_def ModelT1_def placeholder past replace rec_def
          static_ReplacePlaceholders_def Let_def)
  have result: "Sequence_Last eng
        (Base (Sequence_Recurrence eng stepFunction) (static_input dflt seq)) h t =
      last (Base (Recurrence Variable0 step initialState False) seq)" for h t
    using static_Recurrence_last [OF r_def rec ne]
    by (simp add: recurrence last static_Sequence_Last_def Recurrence_def ModelT1_def
          Recurrence_run_def r_def)
  from Sequence_Fold_unfold [of eng stepFunction] result show ?thesis
    by auto
qed

theorem Sequence_Fold_final_state_witness:
  "\<exists>stepFunction step m.
     RNNStep (static_engine symbolic_engine 2 (Node ''Constant'' [] [] [25])
                (Node ''Variable'' [] [] [])) 25 () = Inr stepFunction \<and>
     RNNStep symbolic_engine 25 () = Inr step \<and>
     Sequence_Fold (static_engine symbolic_engine 2 (Node ''Constant'' [] [] [25])
                      (Node ''Variable'' [] [] [])) stepFunction = Inr m \<and>
     Base m (static_input (Node ''Variable'' [] [] [])
               [Node ''x0'' [] [] [50], Node ''x1'' [] [] [50]])
        (\<lambda>u. Node ''Variable'' [] [] []) 0 =
       Base step (Base step (Node ''Constant'' [] [] [25]) (Node ''x0'' [] [] [50]))
         (Node ''x1'' [] [] [50])"
proof -
  define zero where "zero = Node ''Constant'' [] [] [25]"
  define dflt where "dflt = Node ''Variable'' [] [] []"
  define seq where "seq = [Node ''x0'' [] [] [50], Node ''x1'' [] [] [50]]"
  define eng where "eng = static_engine symbolic_engine 2 zero dflt"
  have len: "length seq = 2" by (simp add: seq_def)
  from RNNStep_static_engine [of symbolic_engine 2 zero dflt 25 "()"]
  obtain stepFunction where "\<exists>step.
      RNNStep eng 25 () = Inr stepFunction \<and>
      RNNStep symbolic_engine 25 () = Inr step \<and>
      GetParameterBlock stepFunction = GetParameterBlock step \<and>
      (\<forall>p x h t. Base stepFunction p x h t = Base step (p h t) (x h t))"
    unfolding eng_def ..
  then obtain step where both:
     "RNNStep eng 25 () = Inr stepFunction \<and>
      RNNStep symbolic_engine 25 () = Inr step \<and>
      GetParameterBlock stepFunction = GetParameterBlock step \<and>
      (\<forall>p x h t. Base stepFunction p x h t = Base step (p h t) (x h t))" ..
  then have sf: "RNNStep eng 25 () = Inr stepFunction"
    and st: "RNNStep symbolic_engine 25 () = Inr step"
    and lifted: "\<And>p x h t. Base stepFunction p x h t = Base step (p h t) (x h t)"
    by simp_all
  have ne: "seq \<noteq> []" by (simp add: seq_def)
  have fields: "PlaceholderVariable eng = static_PlaceholderVariable"
    "PastValue eng = static_PastValue zero"
    "ReplacePlaceholders eng = static_ReplacePlaceholders dflt"
    "Sequence_Last eng = static_Sequence_Last (length seq)"
    by (simp_all add: eng_def static_engine_fields len)
  from Sequence_Fold_final_state [OF fields lifted ne, of dflt]
  obtain m where "\<exists>pb. Sequence_Fold eng stepFunction = Inr m \<and>
     (\<forall>h t. Base m (static_input dflt seq) h t =
            last (Base (Recurrence dflt step zero False) seq)) \<and>
     GetParameterBlock m = Some pb \<and>
     m_parameters pb = Map.empty \<and>
     m_parentParameters pb ''step'' = Some (GetParameterBlock stepFunction) \<and>
     dom (m_parentParameters pb) = {''step''}" ..
  then have m: "Sequence_Fold eng stepFunction = Inr m"
    and res: "Base m (static_input dflt seq) (\<lambda>u. dflt) 0 =
              last (Base (Recurrence dflt step zero False) seq)"
    by simp_all
  have "Base (Recurrence dflt step zero False) seq =
        [Base step zero (seq ! 0), Base step (Base step zero (seq ! 0)) (seq ! 1)]"
    by (simp add: Recurrence_def ModelT1_def Recurrence_run_def seq_def
          Recurrence_loop_fwd_step Recurrence_loop_done)
  with res have "Base m (static_input dflt seq) (\<lambda>u. dflt) 0 =
      Base step (Base step zero (seq ! 0)) (seq ! 1)"
    by simp
  then have "RNNStep eng 25 () = Inr stepFunction \<and>
     RNNStep symbolic_engine 25 () = Inr step \<and>
     Sequence_Fold eng stepFunction = Inr m \<and>
     Base m (static_input dflt seq) (\<lambda>u. dflt) 0 =
       Base step (Base step zero (Node ''x0'' [] [] [50])) (Node ''x1'' [] [] [50])"
    using sf st m by (simp add: seq_def)
  then show ?thesis
    unfolding eng_def zero_def dflt_def seq_def by (intro exI)
qed

subsection \<open>The unrolled classifier on a one-step sequence\<close>

lemma Embedding_ok:
  "Embedding eng embeddingDim device =
     Inr \<lparr>Base = (\<lambda>x. Times_op eng (ParameterVariable eng
               (Parameter [embeddingDim, InferredDimension eng] GlorotUniformInitializer device ''E'')) x),
          ModelT_m_parameters = Some (ParameterBlock
            [''E'' \<mapsto> Parameter [embeddingDim, InferredDimension eng] GlorotUniformInitializer device ''E'']
            Map.empty)\<rparr>"
  by (simp add: Embedding_def ModelT2_def ParameterBlock_new_def Let_def)

lemma RNNStep_ok:
  "\<exists>pb. RNNStep eng outputDim device =
     Inr \<lparr>Base = (\<lambda>prevOutput input.
            ReLU eng
              (Plus_op eng
                 (Plus_op eng
                    (Times_op eng (ParameterVariable eng
                       (Parameter [outputDim, InferredDimension eng] GlorotUniformInitializer device ''W''))
                       input)
                    (Times_op eng (ParameterVariable eng
                       (Parameter [outputDim, outputDim] GlorotUniformInitializer device ''R''))
                       prevOutput))
                 (ParameterVariable eng
                    (Parameter [outputDim] (ConstantInitializer 0) device ''b'')))),
          ModelT_m_parameters = Some pb\<rparr>"
  by (simp add: RNNStep_def ModelT2_def ParameterBlock_new_def Let_def)

lemma Linear_ok:
  "\<exists>pb. Linear eng outputDim device =
     Inr \<lparr>Base = (\<lambda>x.
            Plus_op eng
              (Times_op eng (ParameterVariable eng
                 (Parameter [outputDim, InferredDimension eng] GlorotUniformInitializer device ''W'')) x)
              (ParameterVariable eng
                 (Parameter [outputDim] (ConstantInitializer 0) device ''b''))),
          ModelT_m_parameters = Some pb\<rparr>"
  by (simp add: Linear_def ModelT2_def ParameterBlock_new_def Let_def)

lemma CreateModelFunctionUnrolled_loop_done:
  "\<not> t < len \<Longrightarrow>
   CreateModelFunctionUnrolled_loop eng embed' step x len t state calls = Inr (state, calls)"
  by (subst CreateModelFunctionUnrolled_loop.simps) simp

lemma CreateModelFunctionUnrolled_loop_step:
  "t < len \<Longrightarrow> Index eng x t = Inr xt0 \<Longrightarrow>
   CreateModelFunctionUnrolled_loop eng embed' step x len t state calls =
   CreateModelFunctionUnrolled_loop eng embed' step x len (t + 1)
     (Base step state (Base embed' xt0))
     (calls @ [(''embed'', [xt0]), (''step'', [state, Base embed' xt0])])"
  by (subst CreateModelFunctionUnrolled_loop.simps) (simp add: Let_def)

lemma CreateModelFunctionUnrolled_loop_one:
  "Index eng x 0 = Inr x0 \<Longrightarrow>
   CreateModelFunctionUnrolled_loop eng embed' step x 1 0 zero [] =
     Inr (Base step zero (Base embed' x0),
          [(''embed'', [x0]), (''step'', [zero, Base embed' x0])])"
  by (simp add: CreateModelFunctionUnrolled_loop_step CreateModelFunctionUnrolled_loop_done)

text \<open>
  C6. For the model built by \<open>CreateModelFunctionUnrolled\<close> with 5 output classes,
  embedding dimension 50 and hidden dimension 25, applied to a sequence \<open>x\<close> of one step
  (last dimension 1) whose only slice is \<open>x0\<close>: the result is
  \<open>linear(step(zero, embed(x0)))\<close>, \<open>zero\<close> being the constant initial state, and the
  sub-models are invoked exactly once each, \<open>embed\<close>, then \<open>step\<close>, then \<open>linear\<close>.
\<close>

theorem CreateModelFunctionUnrolled_one_step:
  "Shape eng x \<noteq> [] \<Longrightarrow> last (Shape eng x) = 1 \<Longrightarrow> Index eng x 0 = Inr x0 \<Longrightarrow>
   zero = Constant eng [25] 0 device \<Longrightarrow>
   \<exists>embed' step linear' m.
     Embedding eng 50 device = Inr embed' \<and>
     RNNStep eng 25 device = Inr step \<and>
     Linear eng 5 device = Inr linear' \<and>
     CreateModelFunctionUnrolled eng 5 50 25 device = Inr m \<and>
     Base m x =
       Inr (Base linear' (Base step zero (Base embed' x0)),
            [(''embed'', [x0]),
             (''step'', [zero, Base embed' x0]),
             (''linear'', [Base step zero (Base embed' x0)])])"
proof -
  assume shape: "Shape eng x \<noteq> []" "last (Shape eng x) = 1"
    and x0: "Index eng x 0 = Inr x0"
    and zero: "zero = Constant eng [25] 0 device"
  obtain embed' where e: "Embedding eng 50 device = Inr embed'"
    by (simp add: Embedding_ok)
  obtain step where s: "RNNStep eng 25 device = Inr step"
    using RNNStep_ok [of eng 25 device] by blast
  obtain linear' where l: "Linear eng 5 device = Inr linear'"
    using Linear_ok [of eng 5 device] by blast
  obtain d ds where dims: "Shape eng x = d # ds"
    using shape(1) by (cases "Shape eng x") auto
  have closure: "CreateModelFunctionUnrolled_closure eng embed' step linear' zero x =
       Inr (Base linear' (Base step zero (Base embed' x0)),
            [(''embed'', [x0]),
             (''step'', [zero, Base embed' x0]),
             (''linear'', [Base step zero (Base embed' x0)])])"
    using shape(2) dims CreateModelFunctionUnrolled_loop_one [OF x0, of embed' step zero]
    by (simp add: CreateModelFunctionUnrolled_closure_def)
  have "\<exists>m. CreateModelFunctionUnrolled eng 5 50 25 device = Inr m \<and>
          Base m = CreateModelFunctionUnrolled_closure eng embed' step linear' zero"
    by (simp add: CreateModelFunctionUnrolled_def e s l zero ModelT3_def ParameterBlock_new_def)
  with e s l closure show ?thesis
    by auto
qed

theorem CreateModelFunctionUnrolled_one_step_witness:
  "Shape symbolic_engine (Node ''x'' [] [] [2000, 1]) \<noteq> [] \<and>
   last (Shape symbolic_engine (Node ''x'' [] [] [2000, 1])) = 1 \<and>
   Index symbolic_engine (Node ''x'' [] [] [2000, 1]) 0 =
     Inr (Node ''Reshape'' [] [Node ''Slice'' [1, 0, 1] [Node ''x'' [] [] [2000, 1]] [2000, 1]]
            [2000]) \<and>
   (\<exists>embed' step linear' m.
     Embedding symbolic_engine 50 () = Inr embed' \<and>
     RNNStep symbolic_engine 25 () = Inr step \<and>
     Linear symbolic_engine 5 () = Inr linear' \<and>
     CreateModelFunctionUnrolled symbolic_engine 5 50 25 () = Inr m \<and>
     Base m (Node ''x'' [] [] [2000, 1]) =
       Inr (Base linear' (Base step (Node ''Constant'' [] [] [25])
              (Base embed'
                (Node ''Reshape'' []
                   [Node ''Slice'' [1, 0, 1] [Node ''x'' [] [] [2000, 1]] [2000, 1]] [2000]))),
            [(''embed'',
              [Node ''Reshape'' []
                 [Node ''Slice'' [1, 0, 1] [Node ''x'' [] [] [2000, 1]] [2000, 1]] [2000]]),
             (''step'',
              [Node ''Constant'' [] [] [25],
               Base embed'
                (Node ''Reshape'' []
                   [Node ''Slice'' [1, 0, 1] [Node ''x'' [] [] [2000, 1]] [2000, 1]] [2000])]),
             (''linear'',
              [Base step (Node ''Constant'' [] [] [25])
                (Base embed'
                  (Node ''Reshape'' []
                     [Node ''Slice'' [1, 0, 1] [Node ''x'' [] [] [2000, 1]] [2000, 1]]
                     [2000]))])]))"
proof -
  define x where "x = Node ''x'' [] [] [2000, 1]"
  define x0 where "x0 = Node ''Reshape'' [] [Node ''Slice'' [1, 0, 1] [x] [2000, 1]] [2000]"
  define zero where "zero = Node ''Constant'' [] [] [25]"
  have shape: "Shape symbolic_engine x \<noteq> []" "last (Shape symbolic_engine x) = 1"
    by (simp_all add: symbolic_engine_def x_def)
  have index: "Index symbolic_engine x 0 = Inr x0"
    by (simp add: Index_def symbolic_engine_def x_def x0_def Let_def int_of_size_t_small)
  have zero: "zero = Constant symbolic_engine [25] 0 ()"
    by (simp add: symbolic_engine_def zero_def)
  from CreateModelFunctionUnrolled_one_step [OF shape index zero] shape index
  show ?thesis
    unfolding x_def x0_def zero_def by simp
qed

subsection \<open>Minibatch adaptation\<close>

lemma FromCNTKMB_streams_done:
  "\<not> i < length inputs \<Longrightarrow>
   FromCNTKMB_streams eng NDEBUG inputs variables device i numSeq res = Inr res"
  by (subst FromCNTKMB_streams.simps) simp

lemma FromCNTKMB_streams_step:
  "i < length inputs \<Longrightarrow> i < length variables \<Longrightarrow>
   FromCNTKMB_streams eng NDEBUG inputs variables device i numSeq res =
     (case FromCNTKMB_numSeq numSeq (UnpackVariableValue eng (inputs ! i) (variables ! i) device) of
        Inl e \<Rightarrow> Inl e
      | Inr numSeq' \<Rightarrow>
          (case FromCNTKMB_sequences eng NDEBUG
                  (UnpackVariableValue eng (inputs ! i) (variables ! i) device)
                  (DynamicAxes_size eng (variables ! i) > 1) numSeq' 0
                  (replicate numSeq' (Variable_default eng)) of
             Inl e \<Rightarrow> Inl e
           | Inr arg \<Rightarrow>
               FromCNTKMB_streams eng NDEBUG inputs variables device (i + 1) numSeq'
                 (res[i := arg])))"
  by (subst FromCNTKMB_streams.simps) (simp add: Let_def split: sum.splits)

lemma FromCNTKMB_sequences_done:
  "\<not> s < numSeq \<Longrightarrow>
   FromCNTKMB_sequences eng NDEBUG sequences hasAxis numSeq s arg = Inr arg"
  by (subst FromCNTKMB_sequences.simps) simp

text \<open>
  C5, at an input where the code departs from it. The first of two streams unpacks to no
  sequence and the second to one: \<open>numSeq\<close> is still 0 when the second stream is
  reached, so the second stream sets it instead of being compared, and the call returns
  normally with arguments of 0 and 1 sequences.
\<close>

theorem FromCNTKMB_empty_first_stream:
  "FromCNTKMB symbolic_minibatch False
     [[], [Node ''y0'' [] [] [5, 1]]]
     [Node ''features'' [0, 1] [] [2000], Node ''labels'' [1] [] [5]] () =
   Inr [[], [Node ''Constant'' [] [Node ''AsShape'' [] [Node ''y0'' [] [] [5, 1]] [5]] [5]]]"
  by (simp add: FromCNTKMB_def FromCNTKMB_streams.simps FromCNTKMB_sequences.simps
        FromCNTKMB_numSeq_def Index_view_def symbolic_minibatch_def Let_def)

text \<open>
  When the first of two streams has at least one sequence, a second stream with another
  number of sequences is refused, as soon as the first stream has been converted.
\<close>

lemma FromCNTKMB_second_stream_checked:
  "length (UnpackVariableValue eng a va device) \<noteq> 0 \<Longrightarrow>
   length (UnpackVariableValue eng b vb device) \<noteq> length (UnpackVariableValue eng a va device) \<Longrightarrow>
   FromCNTKMB eng NDEBUG [a, b] [va, vb] device =
     (case FromCNTKMB_sequences eng NDEBUG (UnpackVariableValue eng a va device)
             (DynamicAxes_size eng va > 1) (length (UnpackVariableValue eng a va device)) 0
             (replicate (length (UnpackVariableValue eng a va device)) (Variable_default eng)) of
        Inl e \<Rightarrow> Inl e
      | Inr arg \<Rightarrow> Inl (LogicError ''inconsistent MB size''))"
  by (simp add: FromCNTKMB_def FromCNTKMB_streams_step FromCNTKMB_numSeq_def
           split: sum.splits)

text \<open>
  What a call that returns does guarantee, for any number of streams: every stream after
  a non-empty one has the same number of sequences as that one. Only streams without
  sequences that come before the first non-empty stream escape the comparison.
\<close>

lemma FromCNTKMB_numSeq_Inr:
  "FromCNTKMB_numSeq numSeq sequences = Inr n \<Longrightarrow>
   (numSeq \<noteq> 0 \<longrightarrow> length sequences = numSeq) \<and>
   n = (if numSeq = 0 then length sequences else numSeq)"
  by (auto simp: FromCNTKMB_numSeq_def split: if_splits)

lemma FromCNTKMB_streams_counts:
  "FromCNTKMB_streams eng NDEBUG inputs variables device i numSeq res = Inr r \<Longrightarrow>
   i \<le> k \<Longrightarrow> k < length inputs \<Longrightarrow>
   (numSeq \<noteq> 0 \<longrightarrow>
      length (UnpackVariableValue eng (inputs ! k) (variables ! k) device) = numSeq) \<and>
   (\<forall>l. k < l \<and> l < length inputs \<and>
        length (UnpackVariableValue eng (inputs ! k) (variables ! k) device) \<noteq> 0 \<longrightarrow>
        length (UnpackVariableValue eng (inputs ! l) (variables ! l) device) =
        length (UnpackVariableValue eng (inputs ! k) (variables ! k) device))"
proof (induction "length inputs - i" arbitrary: i numSeq res k)
  case 0
  then show ?case by simp
next
  case (Suc n)
  let ?count = "\<lambda>k. length (UnpackVariableValue eng (inputs ! k) (variables ! k) device)"
  from Suc.hyps(2) have lt: "i < length inputs" by simp
  have ltv: "i < length variables"
  proof (rule ccontr)
    assume "\<not> i < length variables"
    with lt Suc.prems(1) show False
      by (subst (asm) FromCNTKMB_streams.simps) simp
  qed
  note step = FromCNTKMB_streams_step [OF lt ltv, of eng NDEBUG device numSeq res]
  from Suc.prems(1) step obtain n' arg
    where n': "FromCNTKMB_numSeq numSeq (UnpackVariableValue eng (inputs ! i) (variables ! i) device)
                 = Inr n'"
      and rest: "FromCNTKMB_streams eng NDEBUG inputs variables device (i + 1) n' (res[i := arg])
                 = Inr r"
    by (auto split: sum.splits)
  from FromCNTKMB_numSeq_Inr [OF n']
  have check: "numSeq \<noteq> 0 \<longrightarrow> ?count i = numSeq"
    and n'_eq: "n' = (if numSeq = 0 then ?count i else numSeq)"
    by simp_all
  have n: "n = length inputs - (i + 1)"
    using Suc.hyps(2) by simp
  note IH = Suc.hyps(1) [OF n rest]
  show ?case
  proof (cases "k = i")
    case True
    have "?count l = ?count i" if "i < l" "l < length inputs" "?count i \<noteq> 0" for l
    proof -
      from that(3) check n'_eq have "n' = ?count i" "n' \<noteq> 0" by auto
      moreover from IH [where k = l] that have "n' \<noteq> 0 \<longrightarrow> ?count l = n'" by simp
      ultimately show ?thesis by simp
    qed
    with check True show ?thesis by simp
  next
    case False
    with Suc.prems(2) have "i + 1 \<le> k" by simp
    from IH [OF this Suc.prems(3)] n'_eq show ?thesis
      by auto
  qed
qed

lemma FromCNTKMB_success_counts:
  "FromCNTKMB eng NDEBUG inputs variables device = Inr r \<Longrightarrow>
   k < l \<Longrightarrow> l < length inputs \<Longrightarrow>
   length (UnpackVariableValue eng (inputs ! k) (variables ! k) device) \<noteq> 0 \<Longrightarrow>
   length (UnpackVariableValue eng (inputs ! l) (variables ! l) device) =
   length (UnpackVariableValue eng (inputs ! k) (variables ! k) device)"
  using FromCNTKMB_streams_counts [of eng NDEBUG inputs variables device 0 0 _ r k]
  by (simp add: FromCNTKMB_def)

end
